theory Spec2Isabelle
  imports Complex_Main "HOL-Library.Sublist" "HOL-Library.AList"
begin

section \<open>Values, objects and the JavaScript operations the routes use\<close>

text \<open>
  The server (\<^verbatim>\<open>src/supabase/functions/server/index.tsx\<close>) keeps JSON objects in a
  key-value table. A field of a stored object is a string or an array of strings (the
  index lists \<^verbatim>\<open>petIds\<close>, \<^verbatim>\<open>appointmentIds\<close>, \<^verbatim>\<open>recordIds\<close>, \<^verbatim>\<open>hashes\<close>); an
  object is a finite map from field names to such values, and reading a field that is not
  there gives \<^verbatim>\<open>undefined\<close>, here \<open>None\<close>.

  A request body is a flat object of strings, as the forms of the client send it
  (\<^verbatim>\<open>JSON.stringify(formData)\<close> in the components).
\<close>

datatype jval = JStr string | JArr "string list"

type_synonym obj = "string \<rightharpoonup> jval"

type_synonym body = "string \<rightharpoonup> string"

definition to_obj :: "body \<Rightarrow> obj" where
  "to_obj b = (\<lambda>f. map_option JStr (b f))"

text \<open>\<^verbatim>\<open>Array.prototype.join(',')\<close>, which is what \<^verbatim>\<open>String(array)\<close> gives.\<close>

fun join_comma :: "string list \<Rightarrow> string" where
  "join_comma [] = []"
| "join_comma [s] = s"
| "join_comma (s # t # ss) = s @ '','' @ join_comma (t # ss)"

definition toStr :: "jval \<Rightarrow> string" where
  "toStr v = (case v of JStr s \<Rightarrow> s | JArr ss \<Rightarrow> join_comma ss)"

text \<open>A value inside a template literal: \<^verbatim>\<open>`${x}`\<close>.\<close>

definition tmpl :: "jval option \<Rightarrow> string" where
  "tmpl v = (case v of None \<Rightarrow> ''undefined'' | Some j \<Rightarrow> toStr j)"

text \<open>Truthiness: \<^verbatim>\<open>undefined\<close> and the empty string are falsy, an array is truthy.\<close>

definition truthy :: "jval option \<Rightarrow> bool" where
  "truthy v = (case v of None \<Rightarrow> False | Some (JStr s) \<Rightarrow> s \<noteq> [] | Some (JArr ss) \<Rightarrow> True)"

text \<open>
  \<^verbatim>\<open>a === b\<close> on two values read from different objects: strings are compared by
  content, two arrays are two different objects and never equal, \<^verbatim>\<open>undefined\<close> equals
  only itself.
\<close>

definition strictEq :: "jval option \<Rightarrow> jval option \<Rightarrow> bool" where
  "strictEq a b = (case (a, b) of
       (None, None) \<Rightarrow> True
     | (Some (JStr s), Some (JStr t)) \<Rightarrow> s = t
     | _ \<Rightarrow> False)"

text \<open>\<^verbatim>\<open>x === 'literal'\<close>.\<close>

definition isStr :: "jval option \<Rightarrow> string \<Rightarrow> bool" where
  "isStr v s = (v = Some (JStr s))"

text \<open>
  A string is a list of characters of the type \<^typ>\<open>char\<close>: the 256 code units from
  U+0000 to U+00FF (Basic Latin and Latin-1 Supplement). The capital letters of this
  range are A to Z, U+00C0 to U+00D6 and U+00D8 to U+00DE; the small form of each is 32
  code units further on, and U+00D7 (the multiplication sign) has none.
\<close>

definition capitals :: string where
  "capitals = ''ABCDEFGHIJKLMNOPQRSTUVWXYZ'' @
     [CHR 0xC0, CHR 0xC1, CHR 0xC2, CHR 0xC3, CHR 0xC4, CHR 0xC5, CHR 0xC6, CHR 0xC7,
      CHR 0xC8, CHR 0xC9, CHR 0xCA, CHR 0xCB, CHR 0xCC, CHR 0xCD, CHR 0xCE, CHR 0xCF,
      CHR 0xD0, CHR 0xD1, CHR 0xD2, CHR 0xD3, CHR 0xD4, CHR 0xD5, CHR 0xD6,
      CHR 0xD8, CHR 0xD9, CHR 0xDA, CHR 0xDB, CHR 0xDC, CHR 0xDD, CHR 0xDE]"

definition smalls :: string where
  "smalls = ''abcdefghijklmnopqrstuvwxyz'' @
     [CHR 0xE0, CHR 0xE1, CHR 0xE2, CHR 0xE3, CHR 0xE4, CHR 0xE5, CHR 0xE6, CHR 0xE7,
      CHR 0xE8, CHR 0xE9, CHR 0xEA, CHR 0xEB, CHR 0xEC, CHR 0xED, CHR 0xEE, CHR 0xEF,
      CHR 0xF0, CHR 0xF1, CHR 0xF2, CHR 0xF3, CHR 0xF4, CHR 0xF5, CHR 0xF6,
      CHR 0xF8, CHR 0xF9, CHR 0xFA, CHR 0xFB, CHR 0xFC, CHR 0xFD, CHR 0xFE]"

text \<open>
  \<^verbatim>\<open>String.prototype.toLowerCase\<close>: every capital letter is replaced by its small
  form and every other character is kept. On this range no replacement depends on the
  neighbouring characters or changes the length of the string.
\<close>

definition lower_char :: "char \<Rightarrow> char" where
  "lower_char c = (case map_of (zip capitals smalls) c of None \<Rightarrow> c | Some l \<Rightarrow> l)"

definition toLowerCase :: "string \<Rightarrow> string" where
  "toLowerCase s = map lower_char s"

text \<open>The decimal text of a number, as a template literal prints \<^verbatim>\<open>Date.now()\<close>.\<close>

definition digit_char :: "nat \<Rightarrow> char" where
  "digit_char d = ''0123456789'' ! d"

fun show_nat :: "nat \<Rightarrow> string" where
  "show_nat n = (if n < 10 then [digit_char n] else show_nat (n div 10) @ [digit_char (n mod 10)])"

declare show_nat.simps [simp del]

definition show_int :: "int \<Rightarrow> string" where
  "show_int i = (if i < 0 then CHR ''-'' # show_nat (nat (- i)) else show_nat (nat i))"

subsection \<open>Dates\<close>

text \<open>
  Times are epoch milliseconds. The routes never look inside a date string themselves:
  they hand it to the built-in \<^verbatim>\<open>Date\<close>. Its three operations are parameters of the
  model:
  \<^item> \<open>parse s\<close> is \<^verbatim>\<open>new Date(s).getTime()\<close>, \<open>None\<close> where JavaScript gives \<^verbatim>\<open>NaN\<close>;
  \<^item> \<open>toISOString t\<close> is \<^verbatim>\<open>new Date(t).toISOString()\<close>, whose first ten characters
    are the UTC calendar date;
  \<^item> \<open>startOfDay t\<close> is \<^verbatim>\<open>new Date(t).setHours(0, 0, 0, 0)\<close>, midnight of the day of
    \<open>t\<close> in the server's time zone.

  One request reads the clock once (\<open>now\<close>); the source reads it again for
  \<^verbatim>\<open>createdAt\<close> and \<^verbatim>\<open>updatedAt\<close>, fields no decision depends on.
\<close>

record jslib =
  parse :: "string \<Rightarrow> int option"
  toISOString :: "int \<Rightarrow> string"
  startOfDay :: "int \<Rightarrow> int"

text \<open>\<^verbatim>\<open>new Date(x).getTime()\<close> for a field \<open>x\<close>; \<^verbatim>\<open>new Date(undefined)\<close> is invalid.\<close>

definition getTime :: "jslib \<Rightarrow> jval option \<Rightarrow> int option" where
  "getTime L v = (case v of None \<Rightarrow> None | Some j \<Rightarrow> parse L (toStr j))"

definition day_ms :: int where
  "day_ms = 1000 * 60 * 60 * 24"

text \<open>
  \<^verbatim>\<open>Math.ceil((t - now) / (1000 * 60 * 60 * 24))\<close>, with the exact quotient in place of
  the floating-point one: the quotient of two integers of this size is rounded by less
  than the distance of a non-integral quotient to the next integer wherever the result
  is compared with a bound below, so the exact ceiling decides the same comparisons.
\<close>

definition daysUntil :: "int \<Rightarrow> int \<Rightarrow> int" where
  "daysUntil t now = \<lceil>(of_int (t - now) :: real) / of_int day_ms\<rceil>"

section \<open>The record store\<close>

text \<open>
  The table is a list of key-value pairs. A key is read at its first pair, \<^verbatim>\<open>set\<close>
  replaces the value of a key that is there and adds a pair otherwise, and \<^verbatim>\<open>del\<close>
  removes every pair of a key. The module \<^verbatim>\<open>kv_store.tsx\<close> is not among the sources.
\<close>

type_synonym store = "(string \<times> obj) list"

text \<open>Modelled from the spec: \<^verbatim>\<open>kv.get\<close> of the missing \<^verbatim>\<open>kv_store.tsx\<close>,
  "get(key) -> value|absent".\<close>

definition kv_get :: "store \<Rightarrow> string \<Rightarrow> obj option" where
  "kv_get st k = map_of st k"

text \<open>Modelled from the spec: \<^verbatim>\<open>kv.set\<close> of the missing \<^verbatim>\<open>kv_store.tsx\<close>,
  "set(key, value) -> ()"; the value under an existing key is replaced.\<close>

definition kv_set :: "string \<Rightarrow> obj \<Rightarrow> store \<Rightarrow> store" where
  "kv_set k v st = AList.update k v st"

text \<open>Modelled from the spec: \<^verbatim>\<open>kv.del\<close> of the missing \<^verbatim>\<open>kv_store.tsx\<close>,
  "delete(key) -> ()".\<close>

definition kv_del :: "string \<Rightarrow> store \<Rightarrow> store" where
  "kv_del k st = AList.delete k st"

text \<open>Modelled from the spec: \<^verbatim>\<open>kv.mget\<close> of the missing \<^verbatim>\<open>kv_store.tsx\<close>,
  "multiGet(keys: seq) -> seq<value|absent> (order-preserving, same length as input)".\<close>

definition kv_mget :: "store \<Rightarrow> string list \<Rightarrow> obj option list" where
  "kv_mget st ks = map (kv_get st) ks"

text \<open>Modelled from the spec: \<^verbatim>\<open>kv.getByPrefix\<close> of the missing \<^verbatim>\<open>kv_store.tsx\<close>,
  "scanByPrefix(prefix) -> set<value>": the values under the keys that start with the
  prefix (\<^verbatim>\<open>send_reminders.tsx\<close> reads the same table with
  \<^verbatim>\<open>.like("key", "appointment:%")\<close>).\<close>

definition getByPrefix :: "string \<Rightarrow> store \<Rightarrow> obj list" where
  "getByPrefix p st = map snd (filter (\<lambda>kv. prefix p (fst kv)) st)"

section \<open>Responses\<close>

text \<open>
  A route answers with a JSON payload, or with an error: the HTTP status, the
  \<^verbatim>\<open>error\<close> text and, for a duplicate pet, the matched pet. An exception inside a
  handler is caught by its \<^verbatim>\<open>try\<close> and answered with status 500; what the handler
  wrote before stays written, so every writing route returns the store as well.
\<close>

datatype failure = Failure (code: nat) (message: string) (attached: "obj option")

definition http_status :: "failure + 'a \<Rightarrow> nat" where
  "http_status r = (case r of Inl f \<Rightarrow> code f | Inr _ \<Rightarrow> 200)"

definition isStaff :: "obj \<Rightarrow> bool" where
  "isStaff profile = (isStr (profile ''role'') ''staff'' \<or> isStr (profile ''role'') ''admin'')"

section \<open>Scheduling\<close>

text \<open>
  The callback of \<^verbatim>\<open>allAppointments.some\<close> in \<^verbatim>\<open>POST /appointments\<close> (and of
  \<^verbatim>\<open>appointments.some\<close> in \<^verbatim>\<open>isSlotAvailable\<close>). A comparison with \<^verbatim>\<open>NaN\<close> is
  false.
\<close>

definition conflictsWith :: "jslib \<Rightarrow> int option \<Rightarrow> obj \<Rightarrow> bool" where
  "conflictsWith L requestedTime apt =
     (if isStr (apt ''status'') ''cancelled'' then False
      else (case (getTime L (apt ''dateTime''), requestedTime) of
              (Some aptTime, Some requested) \<Rightarrow> \<bar>aptTime - requested\<bar> < 30 * 60 * 1000
            | _ \<Rightarrow> False))"

text \<open>
  The three lines that add an id to an index list, as every creating route has them:
  \<^verbatim>\<open>const ix = await kv.get(key) || { field: [] }; ix.field.push(id); await kv.set(key, ix)\<close>.
  \<^verbatim>\<open>push\<close> exists on arrays only: on any other value of the field the handler throws,
  here \<open>None\<close>.
\<close>

definition pushId :: "string \<Rightarrow> string \<Rightarrow> string \<Rightarrow> store \<Rightarrow> store option" where
  "pushId key field newId st =
     (let ix = (case kv_get st key of None \<Rightarrow> [field \<mapsto> JArr []] | Some x \<Rightarrow> x)
      in case ix field of
           Some (JArr ids) \<Rightarrow> Some (kv_set key (ix(field \<mapsto> JArr (ids @ [newId]))) st)
         | _ \<Rightarrow> None)"

text \<open>
  "Determine owner (userId) for the appointment" of \<^verbatim>\<open>POST /appointments\<close>: the pet
  is looked up only when the creator's profile has role staff or admin and the body has a
  \<^verbatim>\<open>petId\<close>; a missing pet is the 404.
\<close>

definition resolveOwner :: "store \<Rightarrow> string \<Rightarrow> body \<Rightarrow> failure + jval" where
  "resolveOwner st uid appointmentData =
     (let creatorProfile = kv_get st (''user:'' @ uid)
      in if (case creatorProfile of None \<Rightarrow> False | Some p \<Rightarrow> isStaff p) then
           if truthy (to_obj appointmentData ''petId'') then
             (case kv_get st (tmpl (to_obj appointmentData ''petId'')) of
                None \<Rightarrow> Inl (Failure 404 ''Pet not found'' None)
              | Some pet \<Rightarrow>
                  (case pet ''ownerId'' of
                     None \<Rightarrow> Inr (JStr uid)
                   | Some owner \<Rightarrow> if truthy (Some owner) then Inr owner else Inr (JStr uid)))
           else Inr (JStr uid)
         else Inr (JStr uid))"

text \<open>The appointment object that \<^verbatim>\<open>POST /appointments\<close> builds: the fields of the body
  are spread over \<^verbatim>\<open>id\<close> and \<^verbatim>\<open>userId\<close>, and under the three fields after them.\<close>

definition newAppointment :: "jslib \<Rightarrow> int \<Rightarrow> string \<Rightarrow> jval \<Rightarrow> body \<Rightarrow> obj" where
  "newAppointment L now appointmentId appointmentUserId appointmentData =
     [''id'' \<mapsto> JStr appointmentId, ''userId'' \<mapsto> appointmentUserId]
     ++ to_obj appointmentData
     ++ [''status'' \<mapsto> JStr ''pending'',
         ''createdAt'' \<mapsto> JStr (toISOString L now),
         ''updatedAt'' \<mapsto> JStr (toISOString L now)]"

text \<open>
  \<^verbatim>\<open>POST /appointments\<close>. \<open>user\<close> is the id of the authenticated user, \<open>None\<close> when
  the token does not resolve. \<^verbatim>\<open>toISOString\<close> throws on an invalid date, after the
  conflict has been computed and before anything is written.
\<close>

definition createAppointment ::
  "jslib \<Rightarrow> int \<Rightarrow> string option \<Rightarrow> body \<Rightarrow> store \<Rightarrow> store \<times> (failure + obj)" where
  "createAppointment L now user appointmentData st =
    (case user of
       None \<Rightarrow> (st, Inl (Failure 401 ''Unauthorized'' None))
     | Some uid \<Rightarrow>
        let appointmentId = ''appointment:'' @ show_int now;
            allAppointments = getByPrefix ''appointment:'' st;
            allBlocks = getByPrefix ''block:'' st;
            requestedTime = getTime L (to_obj appointmentData ''dateTime'');
            conflict = list_ex (conflictsWith L requestedTime) allAppointments
        in (case requestedTime of
              None \<Rightarrow> (st, Inl (Failure 500 ''Failed to create appointment'' None))
            | Some t \<Rightarrow>
               let requestedDateStr = take 10 (toISOString L t);
                   blocked = list_ex (\<lambda>b. isStr (b ''date'') requestedDateStr) allBlocks
               in if blocked then
                    (st, Inl (Failure 409 ''Time slot unavailable - clinic blocked on this date'' None))
                  else if conflict then
                    (st, Inl (Failure 409 ''Time slot unavailable - conflicts with existing appointment'' None))
                  else
                    (case resolveOwner st uid appointmentData of
                       Inl notFound \<Rightarrow> (st, Inl notFound)
                     | Inr appointmentUserId \<Rightarrow>
                         let appointment = newAppointment L now appointmentId appointmentUserId appointmentData;
                             st1 = kv_set appointmentId appointment st
                         in (case pushId (''user:'' @ toStr appointmentUserId @ '':appointments'')
                                    ''appointmentIds'' appointmentId st1 of
                               None \<Rightarrow> (st1, Inl (Failure 500 ''Failed to create appointment'' None))
                             | Some st2 \<Rightarrow> (st2, Inr appointment)))))"

text \<open>
  \<^verbatim>\<open>isSlotAvailable\<close> of \<^verbatim>\<open>components/AppointmentManagement.tsx\<close>, over the blocks
  and appointments the component has fetched; \<open>None\<close> is the \<^verbatim>\<open>RangeError\<close> of
  \<^verbatim>\<open>toISOString\<close> on an invalid date.
\<close>

definition isSlotAvailable :: "jslib \<Rightarrow> obj list \<Rightarrow> obj list \<Rightarrow> string \<Rightarrow> bool option" where
  "isSlotAvailable L blocks appointments isoStr =
     (case parse L isoStr of
        None \<Rightarrow> None
      | Some requested \<Rightarrow>
          let dateStr = take 10 (toISOString L requested)
          in if list_ex (\<lambda>b. isStr (b ''date'') dateStr) blocks then Some False
             else Some (\<not> list_ex (conflictsWith L (Some requested)) appointments))"

text \<open>
  \<^verbatim>\<open>PUT /appointments/:appointmentId\<close>. The profile is read without a check that it
  is there: \<^verbatim>\<open>profile.role\<close> on a missing profile throws, unless
  \<^verbatim>\<open>appointment.userId !== user.id\<close> has already decided the condition.
\<close>

definition updateAppointment ::
  "jslib \<Rightarrow> int \<Rightarrow> string option \<Rightarrow> string \<Rightarrow> body \<Rightarrow> store \<Rightarrow> store \<times> (failure + obj)" where
  "updateAppointment L now user appointmentId updates st =
    (case user of
       None \<Rightarrow> (st, Inl (Failure 401 ''Unauthorized'' None))
     | Some uid \<Rightarrow>
        (case kv_get st appointmentId of
           None \<Rightarrow> (st, Inl (Failure 404 ''Appointment not found'' None))
         | Some appointment \<Rightarrow>
            let profile = kv_get st (''user:'' @ uid)
            in if \<not> isStr (appointment ''userId'') uid \<and> profile = None then
                 (st, Inl (Failure 500 ''Failed to update appointment'' None))
               else if \<not> isStr (appointment ''userId'') uid \<and> \<not> isStaff (the profile) then
                 (st, Inl (Failure 403 ''Forbidden'' None))
               else
                 let updatedAppointment =
                       appointment ++ to_obj updates ++ [''updatedAt'' \<mapsto> JStr (toISOString L now)]
                 in (kv_set appointmentId updatedAppointment st, Inr updatedAppointment)))"

section \<open>Pets and health records\<close>

text \<open>\<^verbatim>\<open>x || ''\<close>.\<close>

definition orEmpty :: "jval option \<Rightarrow> jval" where
  "orEmpty v = (if truthy v then the v else JStr [])"

text \<open>\<^verbatim>\<open>(x || '').toLowerCase()\<close>; an array has no such method, and the call throws
  (\<open>None\<close>).\<close>

definition lowerOf :: "jval option \<Rightarrow> string option" where
  "lowerOf v = (case orEmpty v of JStr s \<Rightarrow> Some (toLowerCase s) | JArr ss \<Rightarrow> None)"

text \<open>
  The callback of \<^verbatim>\<open>existingPets.find\<close> in \<^verbatim>\<open>POST /pets\<close>, on an entry that is
  not \<^verbatim>\<open>null\<close>. The four \<^verbatim>\<open>const\<close> lines are all run before the \<^verbatim>\<open>return\<close>.
\<close>

definition isDuplicate :: "body \<Rightarrow> obj \<Rightarrow> bool option" where
  "isDuplicate petData p =
     (if truthy (to_obj petData ''microchipId'') \<and> truthy (p ''microchipId'') \<and>
         strictEq (p ''microchipId'') (to_obj petData ''microchipId'')
      then Some True
      else (case (lowerOf (p ''name''), lowerOf (p ''species''), lowerOf (p ''breed'')) of
              (Some pname, Some pspecies, Some pbreed) \<Rightarrow>
                 let sameName = (Some pname = lowerOf (to_obj petData ''name''));
                     sameSpecies = (Some pspecies = lowerOf (to_obj petData ''species''));
                     sameBreed = (Some pbreed = lowerOf (to_obj petData ''breed''));
                     sameDob = strictEq (Some (orEmpty (p ''dateOfBirth'')))
                                        (Some (orEmpty (to_obj petData ''dateOfBirth'')))
                 in Some (sameName \<and> sameSpecies \<and> sameBreed \<and> sameDob)
            | _ \<Rightarrow> None))"

text \<open>\<^verbatim>\<open>existingPets.find(...)\<close>: the first entry the callback accepts; \<open>None\<close> when
  the callback throws before that.\<close>

fun findDuplicate :: "body \<Rightarrow> obj option list \<Rightarrow> obj option option" where
  "findDuplicate petData [] = Some None"
| "findDuplicate petData (None # ps) = findDuplicate petData ps"
| "findDuplicate petData (Some p # ps) =
     (case isDuplicate petData p of
        None \<Rightarrow> None
      | Some True \<Rightarrow> Some (Some p)
      | Some False \<Rightarrow> findDuplicate petData ps)"

text \<open>The argument of \<^verbatim>\<open>kv.mget\<close> is a sequence of keys; the call fails on anything
  else.\<close>

definition keysOf :: "jval option \<Rightarrow> string list option" where
  "keysOf v = (case v of Some (JArr ids) \<Rightarrow> Some ids | _ \<Rightarrow> None)"

definition newPet :: "jslib \<Rightarrow> int \<Rightarrow> string \<Rightarrow> string \<Rightarrow> body \<Rightarrow> obj" where
  "newPet L now petId uid petData =
     [''id'' \<mapsto> JStr petId, ''ownerId'' \<mapsto> JStr uid]
     ++ to_obj petData
     ++ [''createdAt'' \<mapsto> JStr (toISOString L now), ''updatedAt'' \<mapsto> JStr (toISOString L now)]"

text \<open>\<^verbatim>\<open>POST /pets\<close>.\<close>

definition createPet ::
  "jslib \<Rightarrow> int \<Rightarrow> string option \<Rightarrow> body \<Rightarrow> store \<Rightarrow> store \<times> (failure + obj)" where
  "createPet L now user petData st =
    (case user of
       None \<Rightarrow> (st, Inl (Failure 401 ''Unauthorized'' None))
     | Some uid \<Rightarrow>
        let petId = ''pet:'' @ uid @ '':'' @ show_int now;
            userPets = (case kv_get st (''user:'' @ uid @ '':pets'') of
                          None \<Rightarrow> [''petIds'' \<mapsto> JArr []] | Some x \<Rightarrow> x)
        in (case keysOf (userPets ''petIds'') of
              None \<Rightarrow> (st, Inl (Failure 500 ''Failed to create pet profile'' None))
            | Some petIds \<Rightarrow>
               (case findDuplicate petData (kv_mget st petIds) of
                  None \<Rightarrow> (st, Inl (Failure 500 ''Failed to create pet profile'' None))
                | Some (Some duplicate) \<Rightarrow>
                    (st, Inl (Failure 409 ''Duplicate pet exists'' (Some duplicate)))
                | Some None \<Rightarrow>
                    let pet = newPet L now petId uid petData;
                        st1 = kv_set petId pet st
                    in (case pushId (''user:'' @ uid @ '':pets'') ''petIds'' petId st1 of
                          None \<Rightarrow> (st1, Inl (Failure 500 ''Failed to create pet profile'' None))
                        | Some st2 \<Rightarrow> (st2, Inr pet)))))"

text \<open>
  \<^verbatim>\<open>DELETE /pets/:petId\<close>. \<^verbatim>\<open>(ownerPets.petIds || []).filter(...)\<close> throws on a
  string that is not empty, after the pet has been deleted.
\<close>

definition deletePet :: "string option \<Rightarrow> string \<Rightarrow> store \<Rightarrow> store \<times> (failure + string)" where
  "deletePet user petId st =
    (case user of
       None \<Rightarrow> (st, Inl (Failure 401 ''Unauthorized'' None))
     | Some uid \<Rightarrow>
        (case kv_get st petId of
           None \<Rightarrow> (st, Inl (Failure 404 ''Pet not found'' None))
         | Some pet \<Rightarrow>
            let profile = kv_get st (''user:'' @ uid)
            in if \<not> isStr (pet ''ownerId'') uid \<and> profile = None then
                 (st, Inl (Failure 500 ''Failed to delete pet'' None))
               else if \<not> isStr (pet ''ownerId'') uid \<and> \<not> isStaff (the profile) then
                 (st, Inl (Failure 403 ''Forbidden: only owner or staff may delete'' None))
               else
                 let st1 = kv_del petId st;
                     ownerPetsKey = ''user:'' @ tmpl (pet ''ownerId'') @ '':pets'';
                     ownerPets = (case kv_get st1 ownerPetsKey of
                                    None \<Rightarrow> [''petIds'' \<mapsto> JArr []] | Some x \<Rightarrow> x)
                 in (case (if truthy (ownerPets ''petIds'') then ownerPets ''petIds'' else Some (JArr [])) of
                       Some (JArr ids) \<Rightarrow>
                         (kv_set ownerPetsKey
                            (ownerPets(''petIds'' \<mapsto> JArr (filter (\<lambda>i. i \<noteq> petId) ids))) st1,
                          Inr petId)
                     | _ \<Rightarrow> (st1, Inl (Failure 500 ''Failed to delete pet'' None)))))"

definition newRecord :: "jslib \<Rightarrow> int \<Rightarrow> string \<Rightarrow> string \<Rightarrow> body \<Rightarrow> obj" where
  "newRecord L now recordId uid recordData =
     [''id'' \<mapsto> JStr recordId]
     ++ to_obj recordData
     ++ [''addedBy'' \<mapsto> JStr uid, ''createdAt'' \<mapsto> JStr (toISOString L now)]"

text \<open>\<^verbatim>\<open>POST /health-records\<close>.\<close>

definition createHealthRecord ::
  "jslib \<Rightarrow> int \<Rightarrow> string option \<Rightarrow> body \<Rightarrow> store \<Rightarrow> store \<times> (failure + obj)" where
  "createHealthRecord L now user recordData st =
    (case user of
       None \<Rightarrow> (st, Inl (Failure 401 ''Unauthorized'' None))
     | Some uid \<Rightarrow>
        let petId = tmpl (to_obj recordData ''petId'');
            recordId = ''record:'' @ petId @ '':'' @ show_int now;
            record = newRecord L now recordId uid recordData;
            st1 = kv_set recordId record st
        in (case pushId (petId @ '':records'') ''recordIds'' recordId st1 of
              None \<Rightarrow> (st1, Inl (Failure 500 ''Failed to create health record'' None))
            | Some st2 \<Rightarrow> (st2, Inr record)))"

section \<open>Reminders\<close>

record reminder =
  r_id :: string
  r_type :: string
  r_petId :: "jval option"
  r_appointmentId :: "jval option"
  r_petName :: "jval option"
  r_message :: string
  r_dateTime :: "jval option"
  r_priority :: string

text \<open>The entries of a \<^verbatim>\<open>kv.mget\<close> result that are not \<^verbatim>\<open>null\<close>.\<close>

fun nonNull :: "'a option list \<Rightarrow> 'a list" where
  "nonNull [] = []"
| "nonNull (None # xs) = nonNull xs"
| "nonNull (Some x # xs) = x # nonNull xs"

text \<open>\<^verbatim>\<open>dismissedHashes.includes(h)\<close>, where \<^verbatim>\<open>dismissedHashes\<close> is
  \<^verbatim>\<open>dismissed.hashes || []\<close>: membership in an array, and on a string the test for a
  substring.\<close>

definition dismissedIncludes :: "obj \<Rightarrow> string \<Rightarrow> bool" where
  "dismissedIncludes dismissed h =
     (case (if truthy (dismissed ''hashes'') then the (dismissed ''hashes'') else JArr []) of
        JArr hashes \<Rightarrow> h \<in> set hashes
      | JStr s \<Rightarrow> sublist h s)"

text \<open>The reminder id of an appointment: its own id when that is a string starting with
  \<^verbatim>\<open>appointment:\<close>.\<close>

definition appointmentHash :: "obj \<Rightarrow> string" where
  "appointmentHash apt =
     (case apt ''id'' of
        Some (JStr i) \<Rightarrow> if prefix ''appointment:'' i then i else ''appointment:'' @ i
      | other \<Rightarrow> ''appointment:'' @ tmpl other)"

text \<open>The object pushed by the first \<^verbatim>\<open>forEach\<close> of \<^verbatim>\<open>GET /reminders\<close>.\<close>

definition appointmentReminder :: "obj \<Rightarrow> int \<Rightarrow> reminder" where
  "appointmentReminder apt d =
     \<lparr> r_id = appointmentHash apt, r_type = ''appointment'', r_petId = apt ''petId'',
       r_appointmentId = apt ''id'', r_petName = None,
       r_message = ''Upcoming appointment in '' @ show_int d @ '' days'',
       r_dateTime = apt ''dateTime'',
       r_priority = (if d \<le> 1 then ''high'' else ''medium'') \<rparr>"

text \<open>The callback of the first \<^verbatim>\<open>forEach\<close>, as a step on the array
  \<^verbatim>\<open>reminders\<close>. With an invalid date \<^verbatim>\<open>daysUntil\<close> is \<^verbatim>\<open>NaN\<close> and both
  comparisons are false.\<close>

definition appointmentStep :: "jslib \<Rightarrow> int \<Rightarrow> obj \<Rightarrow> obj \<Rightarrow> reminder list \<Rightarrow> reminder list" where
  "appointmentStep L now dismissed apt reminders =
     (case getTime L (apt ''dateTime'') of
        None \<Rightarrow> reminders
      | Some aptTime \<Rightarrow>
          let d = daysUntil aptTime now
          in if d \<le> 7 \<and> d \<ge> 0 then
               let h = appointmentHash apt
               in if \<not> dismissedIncludes dismissed h then reminders @ [appointmentReminder apt d]
                  else reminders
             else reminders)"

text \<open>The reminder id of a vaccination, and the object pushed by the second
  \<^verbatim>\<open>forEach\<close>.\<close>

definition vaccinationHash :: "obj \<Rightarrow> string" where
  "vaccinationHash pet =
     ''vaccination:'' @ tmpl (pet ''id'') @ '':'' @ tmpl (pet ''nextVaccinationDate'')"

definition vaccinationReminder :: "obj \<Rightarrow> int \<Rightarrow> reminder" where
  "vaccinationReminder pet d =
     \<lparr> r_id = vaccinationHash pet, r_type = ''vaccination'', r_petId = pet ''id'',
       r_appointmentId = None, r_petName = pet ''name'',
       r_message =
         (if d \<ge> 0
          then tmpl (pet ''name'') @ [CHR 0x27] @ ''s vaccination due in '' @ show_int d @ '' days''
          else tmpl (pet ''name'') @ [CHR 0x27] @ ''s vaccination is '' @ show_int \<bar>d\<bar> @ '' days overdue''),
       r_dateTime = pet ''nextVaccinationDate'',
       r_priority = (if d \<le> 0 then ''high'' else ''medium'') \<rparr>"

text \<open>The callback of the second \<^verbatim>\<open>forEach\<close>.\<close>

definition vaccinationStep :: "jslib \<Rightarrow> int \<Rightarrow> obj \<Rightarrow> obj \<Rightarrow> reminder list \<Rightarrow> reminder list" where
  "vaccinationStep L now dismissed pet reminders =
     (case getTime L (pet ''nextVaccinationDate'') of
        None \<Rightarrow> reminders
      | Some vacDate \<Rightarrow>
          let d = daysUntil vacDate now
          in if d \<le> 14 \<and> d \<ge> -7 then
               let h = vaccinationHash pet
               in if \<not> dismissedIncludes dismissed h then reminders @ [vaccinationReminder pet d]
                  else reminders
             else reminders)"

text \<open>The two loops of \<^verbatim>\<open>GET /reminders\<close> over what \<^verbatim>\<open>kv.mget\<close> returned.\<close>

definition buildReminders ::
  "jslib \<Rightarrow> int \<Rightarrow> obj \<Rightarrow> obj option list \<Rightarrow> obj option list \<Rightarrow> reminder list" where
  "buildReminders L now dismissed appointments pets =
     (let reminders1 =
            fold (appointmentStep L now dismissed)
                 (filter (\<lambda>a. isStr (a ''status'') ''pending'') (nonNull appointments)) [];
          reminders2 =
            fold (vaccinationStep L now dismissed)
                 (filter (\<lambda>p. truthy (p ''nextVaccinationDate'')) (nonNull pets)) reminders1
      in reminders2)"

text \<open>\<^verbatim>\<open>GET /reminders\<close>.\<close>

definition getReminders :: "jslib \<Rightarrow> int \<Rightarrow> string option \<Rightarrow> store \<Rightarrow> failure + reminder list" where
  "getReminders L now user st =
    (case user of
       None \<Rightarrow> Inl (Failure 401 ''Unauthorized'' None)
     | Some uid \<Rightarrow>
        let userPets = (case kv_get st (''user:'' @ uid @ '':pets'') of
                          None \<Rightarrow> [''petIds'' \<mapsto> JArr []] | Some x \<Rightarrow> x);
            userAppointments = (case kv_get st (''user:'' @ uid @ '':appointments'') of
                                  None \<Rightarrow> [''appointmentIds'' \<mapsto> JArr []] | Some x \<Rightarrow> x);
            dismissed = (case kv_get st (''user:'' @ uid @ '':dismissed_reminders'') of
                           None \<Rightarrow> [''hashes'' \<mapsto> JArr []] | Some x \<Rightarrow> x)
        in (case (keysOf (userPets ''petIds''), keysOf (userAppointments ''appointmentIds'')) of
              (Some petIds, Some appointmentIds) \<Rightarrow>
                 Inr (buildReminders L now dismissed (kv_mget st appointmentIds) (kv_mget st petIds))
            | _ \<Rightarrow> Inl (Failure 500 ''Failed to fetch reminders'' None)))"

section \<open>Dashboard\<close>

record stats =
  totalPets :: nat
  totalClients :: nat
  todayAppointments :: nat
  weekAppointments :: nat
  pendingAppointments :: nat
  completedAppointments :: nat
  missedAppointments :: nat
  vaccinationsDue :: nat
  recentActivity :: "obj list"

text \<open>The body of \<^verbatim>\<open>GET /dashboard/stats\<close> after the three prefix scans.\<close>

definition computeStats :: "jslib \<Rightarrow> int \<Rightarrow> obj list \<Rightarrow> obj list \<Rightarrow> obj list \<Rightarrow> stats" where
  "computeStats L now allAppointments allPets allUsers =
     (let today = startOfDay L now;
          weekAgo = today - (7 * 24 * 60 * 60 * 1000);
          todayApts = filter (\<lambda>apt. case getTime L (apt ''dateTime'') of
                                         None \<Rightarrow> False
                                       | Some t \<Rightarrow> startOfDay L t = today) allAppointments;
          weekApts = filter (\<lambda>apt. case getTime L (apt ''dateTime'') of
                                        None \<Rightarrow> False
                                      | Some aptDate \<Rightarrow> aptDate \<ge> weekAgo \<and> aptDate \<le> now) allAppointments;
          missedApts = filter (\<lambda>apt. case getTime L (apt ''dateTime'') of
                                          None \<Rightarrow> False
                                        | Some aptTime \<Rightarrow> isStr (apt ''status'') ''pending'' \<and> aptTime < now)
                              allAppointments;
          vaccinations = filter (\<lambda>pet. if \<not> truthy (pet ''nextVaccinationDate'') then False
                                         else (case getTime L (pet ''nextVaccinationDate'') of
                                                 None \<Rightarrow> False
                                               | Some vacDate \<Rightarrow>
                                                   daysUntil vacDate now \<le> 14 \<and> daysUntil vacDate now \<ge> -7))
                                allPets
      in \<lparr> totalPets = length allPets,
           totalClients = length (filter (\<lambda>u. isStr (u ''role'') ''owner'') allUsers),
           todayAppointments = length todayApts,
           weekAppointments = length weekApts,
           pendingAppointments = length (filter (\<lambda>a. isStr (a ''status'') ''pending'') allAppointments),
           completedAppointments = length (filter (\<lambda>a. isStr (a ''status'') ''completed'') allAppointments),
           missedAppointments = length missedApts,
           vaccinationsDue = length vaccinations,
           recentActivity = take 10 weekApts \<rparr>)"

text \<open>\<^verbatim>\<open>GET /dashboard/stats\<close>.\<close>

definition dashboardStats :: "jslib \<Rightarrow> int \<Rightarrow> string option \<Rightarrow> store \<Rightarrow> failure + stats" where
  "dashboardStats L now user st =
    (case user of
       None \<Rightarrow> Inl (Failure 401 ''Unauthorized'' None)
     | Some uid \<Rightarrow>
        (case kv_get st (''user:'' @ uid) of
           None \<Rightarrow> Inl (Failure 403 ''Forbidden: Staff access required'' None)
         | Some profile \<Rightarrow>
            if \<not> isStaff profile then Inl (Failure 403 ''Forbidden: Staff access required'' None)
            else Inr (computeStats L now (getByPrefix ''appointment:'' st)
                        (getByPrefix ''pet:'' st) (getByPrefix ''user:'' st))))"

section \<open>Index lists\<close>

text \<open>
  The index list under a key, as the routes read it: empty when the key is absent,
  and \<open>None\<close> when the field is not an array.
\<close>

definition indexList :: "store \<Rightarrow> string \<Rightarrow> string \<Rightarrow> string list option" where
  "indexList st key field = (case kv_get st key of None \<Rightarrow> Some [] | Some ix \<Rightarrow> keysOf (ix field))"

section \<open>The claims' words\<close>

text \<open>
  Two texts match case-insensitively when they have the same length and, position by
  position, the same letter: the same character, or a capital letter on one side and
  its small form on the other.
\<close>

definition sameLetter :: "char \<Rightarrow> char \<Rightarrow> bool" where
  "sameLetter c d =
     (c = d \<or> (c, d) \<in> set (zip capitals smalls) \<or> (d, c) \<in> set (zip capitals smalls))"

definition sameText :: "string \<Rightarrow> string \<Rightarrow> bool" where
  "sameText a b = list_all2 sameLetter a b"

text \<open>
  The duplicate test in the words of the specification, on the text of the fields (an
  absent field reads as the empty text): the microchip id is present on both and equal,
  or name, species and breed match case-insensitively and the date of birth is equal.
\<close>

definition fieldText :: "jval option \<Rightarrow> string" where
  "fieldText v = (case v of Some (JStr s) \<Rightarrow> s | _ \<Rightarrow> [])"

definition spec_duplicate :: "body \<Rightarrow> obj \<Rightarrow> bool" where
  "spec_duplicate candidate p =
     ((fieldText (to_obj candidate ''microchipId'') \<noteq> [] \<and> fieldText (p ''microchipId'') \<noteq> [] \<and>
       fieldText (p ''microchipId'') = fieldText (to_obj candidate ''microchipId''))
      \<or> (sameText (fieldText (p ''name'')) (fieldText (to_obj candidate ''name'')) \<and>
          sameText (fieldText (p ''species'')) (fieldText (to_obj candidate ''species'')) \<and>
          sameText (fieldText (p ''breed'')) (fieldText (to_obj candidate ''breed'')) \<and>
          fieldText (p ''dateOfBirth'') = fieldText (to_obj candidate ''dateOfBirth'')))"

text \<open>The identifying fields of a stored pet are texts, not arrays.\<close>

definition textual :: "obj \<Rightarrow> bool" where
  "textual p =
     list_all (\<lambda>f. case p f of Some (JArr ss) \<Rightarrow> False | _ \<Rightarrow> True)
       [''name'', ''species'', ''breed'', ''dateOfBirth'']"

text \<open>
  The days until a date field, in the claims' words \<open>ceil((date - now) / 1 day)\<close>
  (none for an invalid date), and a window of days.
\<close>

definition daysTo :: "jslib \<Rightarrow> int \<Rightarrow> jval option \<Rightarrow> int option" where
  "daysTo L now v = map_option (\<lambda>t. daysUntil t now) (getTime L v)"

definition inWindow :: "int \<Rightarrow> int \<Rightarrow> int option \<Rightarrow> bool" where
  "inWindow lo hi d = (case d of None \<Rightarrow> False | Some n \<Rightarrow> lo \<le> n \<and> n \<le> hi)"

text \<open>
  The dismissed set of a user: the array \<^verbatim>\<open>hashes\<close> of the record
  \<^verbatim>\<open>user:<id>:dismissed_reminders\<close>, empty when the record or the field is not
  there.
\<close>

definition dismissedSet :: "store \<Rightarrow> string \<Rightarrow> string list option" where
  "dismissedSet st uid =
     (case kv_get st (''user:'' @ uid @ '':dismissed_reminders'') of
        None \<Rightarrow> Some []
      | Some x \<Rightarrow> (case x ''hashes'' of
                     None \<Rightarrow> Some []
                   | Some (JArr hashes) \<Rightarrow> Some hashes
                   | Some (JStr s) \<Rightarrow> None))"

text \<open>The week count in the words of claim C9: the appointments with a time in the closed
  interval from \<open>now - 7\<close> days to \<open>now\<close>.\<close>

definition spec_weekCount :: "jslib \<Rightarrow> int \<Rightarrow> obj list \<Rightarrow> nat" where
  "spec_weekCount L now appointments =
     length (filter (\<lambda>apt. case getTime L (apt ''dateTime'') of
                               None \<Rightarrow> False
                             | Some t \<Rightarrow> now - 7 * day_ms \<le> t \<and> t \<le> now) appointments)"

section \<open>Sequences of operations\<close>

text \<open>
  The create and delete operations on pets, appointments and health records, each with
  the clock reading and the authenticated user of its request, run one after the other
  on the store. The server has no route that deletes an appointment or a health record.
\<close>

datatype operation =
    CreatePet int "string option" body
  | DeletePet "string option" string
  | CreateAppointment int "string option" body
  | CreateHealthRecord int "string option" body

fun perform :: "jslib \<Rightarrow> operation \<Rightarrow> store \<Rightarrow> store" where
  "perform L (CreatePet now user petData) st = fst (createPet L now user petData st)"
| "perform L (DeletePet user petId) st = fst (deletePet user petId st)"
| "perform L (CreateAppointment now user appointmentData) st =
     fst (createAppointment L now user appointmentData st)"
| "perform L (CreateHealthRecord now user recordData) st =
     fst (createHealthRecord L now user recordData st)"

definition run :: "jslib \<Rightarrow> operation list \<Rightarrow> store \<Rightarrow> store" where
  "run L ops st = fold (perform L) ops st"

text \<open>
  The id of a pet record is a key \<^verbatim>\<open>pet:<owner>:<time>\<close>; the keys
  \<^verbatim>\<open><petId>:records\<close> hold the index lists of health records.
\<close>

definition petKey :: "string \<Rightarrow> bool" where
  "petKey k = (prefix ''pet:'' k \<and> \<not> suffix '':records'' k)"

text \<open>
  Requests as the forms send them and ids that are new: a pet body has no
  \<^verbatim>\<open>ownerId\<close>, an appointment body no \<^verbatim>\<open>userId\<close>, a health record body has a
  \<^verbatim>\<open>petId\<close>; the id made from the clock is not yet a key of the store (the clock has
  moved on since the last creation); and a pet is deleted by the id of a pet.
\<close>

fun admissible :: "operation \<Rightarrow> store \<Rightarrow> bool" where
  "admissible (CreatePet now user petData) st =
     (petData ''ownerId'' = None \<and>
      (case user of None \<Rightarrow> True
       | Some uid \<Rightarrow> kv_get st (''pet:'' @ uid @ '':'' @ show_int now) = None))"
| "admissible (DeletePet user petId) st = petKey petId"
| "admissible (CreateAppointment now user appointmentData) st =
     (appointmentData ''userId'' = None \<and> kv_get st (''appointment:'' @ show_int now) = None)"
| "admissible (CreateHealthRecord now user recordData) st =
     (recordData ''petId'' \<noteq> None \<and>
      kv_get st (''record:'' @ tmpl (to_obj recordData ''petId'') @ '':'' @ show_int now) = None)"

fun admissibleRun :: "jslib \<Rightarrow> operation list \<Rightarrow> store \<Rightarrow> bool" where
  "admissibleRun L [] st = True"
| "admissibleRun L (x # xs) st = (admissible x st \<and> admissibleRun L xs (perform L x st))"

text \<open>
  One family of index lists is exact: for every owner \<open>u\<close> the list under
  \<open>keyOf u\<close> is there, and its ids are exactly the keys of the family's records whose
  reference field is \<open>u\<close>.
\<close>

definition indexed ::
  "(string \<Rightarrow> string) \<Rightarrow> string \<Rightarrow> (string \<Rightarrow> bool) \<Rightarrow> string \<Rightarrow> store \<Rightarrow> bool" where
  "indexed keyOf field isId ref st =
     (\<forall>u. \<exists>ids. indexList st (keyOf u) field = Some ids \<and>
            set ids = {k. isId k \<and> (\<exists>v. kv_get st k = Some v \<and> v ref = Some (JStr u))})"

text \<open>The three families of claim C2: the pets of an owner, the appointments of a user,
  the health records of a pet.\<close>

definition consistent :: "store \<Rightarrow> bool" where
  "consistent st =
     (indexed (\<lambda>u. ''user:'' @ u @ '':pets'') ''petIds'' petKey ''ownerId'' st \<and>
      indexed (\<lambda>u. ''user:'' @ u @ '':appointments'') ''appointmentIds'' (prefix ''appointment:'') ''userId'' st \<and>
      indexed (\<lambda>p. p @ '':records'') ''recordIds'' (prefix ''record:'') ''petId'' st)"

text \<open>No stored \<^verbatim>\<open>ownerId\<close> is an array (the bodies of requests are flat objects of
  strings).\<close>

definition ownersTextual :: "store \<Rightarrow> bool" where
  "ownersTextual st = (\<forall>k v ss. kv_get st k = Some v \<longrightarrow> v ''ownerId'' \<noteq> Some (JArr ss))"

section \<open>Example data\<close>

text \<open>
  A server in UTC, with \<^verbatim>\<open>Date\<close> cut down to the instants the examples use: each
  ISO string with its epoch milliseconds.
\<close>

definition utcDates :: "(string \<times> int) list" where
  "utcDates =
     [(''2025-01-15T10:00:00.000Z'', 1736935200000),
      (''2025-01-15T10:15:00.000Z'', 1736936100000),
      (''2025-01-15T10:30:00.000Z'', 1736937000000),
      (''2025-01-16T10:00:00.000Z'', 1737021600000),
      (''2025-01-23T10:00:00.000Z'', 1737626400000),
      (''2025-01-29'', 1738108800000),
      (''2025-01-08T09:00:00.000Z'', 1736326800000)]"

definition utcLib :: jslib where
  "utcLib = \<lparr> parse = map_of utcDates,
              toISOString = (\<lambda>t. case map_of (map prod.swap utcDates) t of None \<Rightarrow> [] | Some s \<Rightarrow> s),
              startOfDay = (\<lambda>t. t - t mod day_ms) \<rparr>"

definition bookedStore :: store where
  "bookedStore =
     [(''appointment:1736900000000'',
        [''id'' \<mapsto> JStr ''appointment:1736900000000'', ''userId'' \<mapsto> JStr ''u1'',
         ''petId'' \<mapsto> JStr ''pet:u1:1'', ''dateTime'' \<mapsto> JStr ''2025-01-15T10:00:00.000Z'',
         ''status'' \<mapsto> JStr ''pending''])]"


definition slotRequest :: body where
  "slotRequest = [''petId'' \<mapsto> ''pet:u2:7'', ''dateTime'' \<mapsto> ''2025-01-15T10:15:00.000Z'']"

definition clinicStore :: store where
  "clinicStore =
     [(''user:s1'', [''id'' \<mapsto> JStr ''s1'', ''name'' \<mapsto> JStr ''Sam'', ''role'' \<mapsto> JStr ''staff'']),
      (''user:u1'', [''id'' \<mapsto> JStr ''u1'', ''name'' \<mapsto> JStr ''Olga'', ''role'' \<mapsto> JStr ''owner'']),
      (''pet:u1:1'', [''id'' \<mapsto> JStr ''pet:u1:1'', ''ownerId'' \<mapsto> JStr ''u1'', ''name'' \<mapsto> JStr ''Rex'']),
      (''user:u1:pets'', [''petIds'' \<mapsto> JArr [''pet:u1:1'']])]"



definition cancelledVisit :: obj where
  "cancelledVisit =
     [''id'' \<mapsto> JStr ''appointment:1736900000500'', ''userId'' \<mapsto> JStr ''u1'',
      ''petId'' \<mapsto> JStr ''pet:u1:1'', ''dateTime'' \<mapsto> JStr ''2025-01-15T10:30:00.000Z'',
      ''status'' \<mapsto> JStr ''cancelled'']"

definition kennelStore :: store where
  "kennelStore =
     [(''user:u1:pets'', [''petIds'' \<mapsto> JArr [''pet:u1:1'', ''pet:u1:2'']]),
      (''pet:u1:1'',
         [''id'' \<mapsto> JStr ''pet:u1:1'', ''ownerId'' \<mapsto> JStr ''u1'', ''name'' \<mapsto> JStr ''Rex'',
          ''species'' \<mapsto> JStr ''Dog'', ''breed'' \<mapsto> JStr ''Beagle'',
          ''dateOfBirth'' \<mapsto> JStr ''2020-05-01'', ''microchipId'' \<mapsto> JStr ''MC-1'']),
      (''pet:u1:2'',
         [''id'' \<mapsto> JStr ''pet:u1:2'', ''ownerId'' \<mapsto> JStr ''u1'',
          ''name'' \<mapsto> JStr (CHR 0xE9 # ''milie''),
          ''species'' \<mapsto> JStr ''Cat'', ''breed'' \<mapsto> JStr ''Siamese'',
          ''dateOfBirth'' \<mapsto> JStr ''2021-03-09''])]"

text \<open>The second pet again, in capitals: the name starts with U+00C9, the capital of
  U+00E9.\<close>

definition emilieAgain :: body where
  "emilieAgain = [''name'' \<mapsto> CHR 0xC9 # ''MILIE'', ''species'' \<mapsto> ''cat'', ''breed'' \<mapsto> ''SIAMESE'',
                  ''dateOfBirth'' \<mapsto> ''2021-03-09'', ''microchipId'' \<mapsto> ''MC-2'']"

definition reminderStore :: store where
  "reminderStore =
     [(''user:u1:appointments'',
         [''appointmentIds'' \<mapsto> JArr [''appointment:1'', ''appointment:2'', ''appointment:3'',
                                       ''appointment:4'']]),
      (''user:u1:pets'', [''petIds'' \<mapsto> JArr [''pet:u1:1'', ''pet:u1:2'']]),
      (''appointment:1'',
         [''id'' \<mapsto> JStr ''appointment:1'', ''userId'' \<mapsto> JStr ''u1'', ''petId'' \<mapsto> JStr ''pet:u1:1'',
          ''dateTime'' \<mapsto> JStr ''2025-01-16T10:00:00.000Z'', ''status'' \<mapsto> JStr ''pending'']),
      (''appointment:2'',
         [''id'' \<mapsto> JStr ''appointment:2'', ''userId'' \<mapsto> JStr ''u1'', ''petId'' \<mapsto> JStr ''pet:u1:1'',
          ''dateTime'' \<mapsto> JStr ''2025-01-23T10:00:00.000Z'', ''status'' \<mapsto> JStr ''pending'']),
      (''appointment:3'',
         [''id'' \<mapsto> JStr ''appointment:3'', ''userId'' \<mapsto> JStr ''u1'', ''petId'' \<mapsto> JStr ''pet:u1:1'',
          ''dateTime'' \<mapsto> JStr ''2025-01-16T10:00:00.000Z'', ''status'' \<mapsto> JStr ''approved'']),
      (''pet:u1:1'',
         [''id'' \<mapsto> JStr ''pet:u1:1'', ''ownerId'' \<mapsto> JStr ''u1'', ''name'' \<mapsto> JStr ''Rex'',
          ''nextVaccinationDate'' \<mapsto> JStr ''2025-01-29'']),
      (''appointment:4'',
         [''id'' \<mapsto> JStr ''appointment:4'', ''userId'' \<mapsto> JStr ''u1'', ''petId'' \<mapsto> JStr ''pet:u1:2'',
          ''dateTime'' \<mapsto> JStr ''2025-01-16T10:00:00.000Z'', ''status'' \<mapsto> JStr ''pending'']),
      (''pet:u1:2'',
         [''id'' \<mapsto> JStr ''pet:u1:2'', ''ownerId'' \<mapsto> JStr ''u1'', ''name'' \<mapsto> JStr ''Tom'',
          ''nextVaccinationDate'' \<mapsto> JStr ''2025-01-29'']),
      (''user:u1:dismissed_reminders'',
         [''hashes'' \<mapsto> JArr [''appointment:4'', ''vaccination:pet:u1:2:2025-01-29'']])]"

definition weekStore :: store where
  "weekStore =
     [(''user:s1'', [''id'' \<mapsto> JStr ''s1'', ''name'' \<mapsto> JStr ''Sam'', ''role'' \<mapsto> JStr ''staff'']),
      (''appointment:1736000000000'',
         [''id'' \<mapsto> JStr ''appointment:1736000000000'', ''userId'' \<mapsto> JStr ''u1'',
          ''petId'' \<mapsto> JStr ''pet:u1:1'', ''dateTime'' \<mapsto> JStr ''2025-01-08T09:00:00.000Z'',
          ''status'' \<mapsto> JStr ''pending'']),
      (''pet:u1:1'', [''id'' \<mapsto> JStr ''pet:u1:1'', ''ownerId'' \<mapsto> JStr ''u1'', ''name'' \<mapsto> JStr ''Rex''])]"

definition checkupRecord :: body where
  "checkupRecord = [''petId'' \<mapsto> ''pet:u1:1'', ''recordType'' \<mapsto> ''checkup'', ''title'' \<mapsto> ''Annual'']"

definition rexForm :: body where
  "rexForm = [''name'' \<mapsto> ''Rex'', ''species'' \<mapsto> ''Dog'', ''breed'' \<mapsto> ''Beagle'',
              ''dateOfBirth'' \<mapsto> ''2020-05-01'']"

definition rexCheckup :: body where
  "rexCheckup = [''petId'' \<mapsto> ''pet:u1:1736900001000'', ''recordType'' \<mapsto> ''checkup'',
                 ''title'' \<mapsto> ''Annual'']"

definition rexVisit :: body where
  "rexVisit = [''petId'' \<mapsto> ''pet:u1:1736900001000'', ''petName'' \<mapsto> ''Rex'',
               ''dateTime'' \<mapsto> ''2025-01-15T10:15:00.000Z'', ''reason'' \<mapsto> ''checkup'']"

definition rexLife :: "operation list" where
  "rexLife =
     [CreatePet 1736900001000 (Some ''u1'') rexForm,
      CreateHealthRecord 1736900002000 (Some ''u1'') rexCheckup,
      CreateAppointment 1736900003000 (Some ''u1'') rexVisit,
      DeletePet (Some ''u1'') ''pet:u1:1736900001000'']"

section \<open>Properties\<close>

subsection \<open>Reading the store\<close>

lemma set_getByPrefix: "set (getByPrefix p st) = {v. \<exists>k. (k, v) \<in> set st \<and> prefix p k}"
  by (auto simp: getByPrefix_def image_iff)

lemma conflictsWith_Some:
  "conflictsWith L (Some t2) apt \<longleftrightarrow>
     \<not> isStr (apt ''status'') ''cancelled'' \<and>
     (\<exists>t1. getTime L (apt ''dateTime'') = Some t1 \<and> \<bar>t1 - t2\<bar> < 30 * 60 * 1000)"
  by (auto simp: conflictsWith_def split: option.splits)

lemma getTime_body:
  "b f = Some dt \<Longrightarrow> getTime L (to_obj b f) = parse L dt"
  by (simp add: getTime_def to_obj_def toStr_def)

lemma resolveOwner_code: "resolveOwner st uid b = Inl f \<Longrightarrow> code f = 404"
  by (auto simp: resolveOwner_def Let_def split: if_splits option.splits)

lemma create_status_409:
  assumes "getTime L (to_obj appointmentData ''dateTime'') = Some t2"
  shows "http_status (snd (createAppointment L now (Some uid) appointmentData st)) = 409 \<longleftrightarrow>
     list_ex (\<lambda>b. isStr (b ''date'') (take 10 (toISOString L t2))) (getByPrefix ''block:'' st) \<or>
     list_ex (conflictsWith L (Some t2)) (getByPrefix ''appointment:'' st)"
  by (auto simp add: createAppointment_def Let_def assms http_status_def dest: resolveOwner_code split: option.splits sum.splits)

lemma create_409_unchanged:
  "http_status (snd (createAppointment L now user appointmentData st)) = 409 \<Longrightarrow>
   fst (createAppointment L now user appointmentData st) = st"
  by (auto simp add: createAppointment_def Let_def http_status_def dest: resolveOwner_code split: option.splits sum.splits if_splits)


subsection \<open>C1: the thirty-minute buffer\<close>

text \<open>
  Claim C1. A request to create an appointment at a valid time \<open>t2\<close> is answered with
  409 exactly when the date is blocked or some stored appointment that is not cancelled
  lies at a time \<open>t1\<close> with \<open>|t1 - t2| < 30\<close> minutes; an appointment at 30 minutes or
  more causes no conflict. Nothing is written on a 409. The test is symmetric in the two
  times and looks at neither pet nor owner. The slot test of the booking form gives the
  same answer on the blocks and appointments it has been given.
\<close>
theorem buffer_conflict_rejected:
  assumes "appointmentData ''dateTime'' = Some dt" and "parse L dt = Some t2"
  shows "(http_status (snd (createAppointment L now (Some uid) appointmentData st)) = 409 \<longleftrightarrow>
            list_ex (\<lambda>b. isStr (b ''date'') (take 10 (toISOString L t2))) (getByPrefix ''block:'' st) \<or>
            (\<exists>k apt t1. (k, apt) \<in> set st \<and> prefix ''appointment:'' k \<and>
               \<not> isStr (apt ''status'') ''cancelled'' \<and>
               getTime L (apt ''dateTime'') = Some t1 \<and> \<bar>t1 - t2\<bar> < 30 * 60 * 1000))
       \<and> (http_status (snd (createAppointment L now (Some uid) appointmentData st)) = 409 \<longrightarrow>
            fst (createAppointment L now (Some uid) appointmentData st) = st)
       \<and> (\<forall>apt1 apt2 ta tb.
             \<not> isStr (apt1 ''status'') ''cancelled'' \<and> \<not> isStr (apt2 ''status'') ''cancelled'' \<and>
             getTime L (apt1 ''dateTime'') = Some ta \<and> getTime L (apt2 ''dateTime'') = Some tb \<longrightarrow>
             conflictsWith L (Some tb) apt1 = conflictsWith L (Some ta) apt2)
       \<and> (\<forall>blocks appointments.
             isSlotAvailable L blocks appointments dt =
               Some (\<not> (list_ex (\<lambda>b. isStr (b ''date'') (take 10 (toISOString L t2))) blocks \<or>
                         (\<exists>apt \<in> set appointments. \<exists>t1. \<not> isStr (apt ''status'') ''cancelled'' \<and>
                             getTime L (apt ''dateTime'') = Some t1 \<and> \<bar>t1 - t2\<bar> < 30 * 60 * 1000))))"
proof -
  have rt: "getTime L (to_obj appointmentData ''dateTime'') = Some t2"
    using assms by (simp add: getTime_body)
  have ex: "list_ex (conflictsWith L (Some t2)) (getByPrefix ''appointment:'' st) \<longleftrightarrow>
     (\<exists>k apt t1. (k, apt) \<in> set st \<and> prefix ''appointment:'' k \<and> \<not> isStr (apt ''status'') ''cancelled'' \<and>
        getTime L (apt ''dateTime'') = Some t1 \<and> \<bar>t1 - t2\<bar> < 30 * 60 * 1000)"
    unfolding list_ex_iff set_getByPrefix conflictsWith_Some by blast
  have a: "http_status (snd (createAppointment L now (Some uid) appointmentData st)) = 409 \<longleftrightarrow>
            list_ex (\<lambda>b. isStr (b ''date'') (take 10 (toISOString L t2))) (getByPrefix ''block:'' st) \<or>
            (\<exists>k apt t1. (k, apt) \<in> set st \<and> prefix ''appointment:'' k \<and>
               \<not> isStr (apt ''status'') ''cancelled'' \<and>
               getTime L (apt ''dateTime'') = Some t1 \<and> \<bar>t1 - t2\<bar> < 30 * 60 * 1000)"
    using create_status_409 [OF rt] ex by simp
  have c: "\<forall>apt1 apt2 ta tb.
             \<not> isStr (apt1 ''status'') ''cancelled'' \<and> \<not> isStr (apt2 ''status'') ''cancelled'' \<and>
             getTime L (apt1 ''dateTime'') = Some ta \<and> getTime L (apt2 ''dateTime'') = Some tb \<longrightarrow>
             conflictsWith L (Some tb) apt1 = conflictsWith L (Some ta) apt2"
    by (auto simp: conflictsWith_Some)
  have d: "\<forall>blocks appointments.
             isSlotAvailable L blocks appointments dt =
               Some (\<not> (list_ex (\<lambda>b. isStr (b ''date'') (take 10 (toISOString L t2))) blocks \<or>
                         (\<exists>apt \<in> set appointments. \<exists>t1. \<not> isStr (apt ''status'') ''cancelled'' \<and>
                             getTime L (apt ''dateTime'') = Some t1 \<and> \<bar>t1 - t2\<bar> < 30 * 60 * 1000)))"
    using assms(2) by (auto simp: isSlotAvailable_def Let_def list_ex_iff conflictsWith_Some)
  from a create_409_unchanged c d show ?thesis by blast
qed

lemma parse_1015: "parse utcLib ''2025-01-15T10:15:00.000Z'' = Some 1736936100000"
  by (simp add: utcLib_def utcDates_def)

theorem buffer_conflict_rejected_witness:
  "http_status (snd (createAppointment utcLib 1736900001000 (Some ''u2'') slotRequest bookedStore)) = 409
   \<and> fst (createAppointment utcLib 1736900001000 (Some ''u2'') slotRequest bookedStore) = bookedStore
   \<and> http_status (snd (createAppointment utcLib 1736900001000 (Some ''u2'') slotRequest [])) \<noteq> 409"
proof -
  have dt: "slotRequest ''dateTime'' = Some ''2025-01-15T10:15:00.000Z''"
    by (simp add: slotRequest_def)
  have n: "\<exists>k apt t1. (k, apt) \<in> set bookedStore \<and> prefix ''appointment:'' k \<and>
               \<not> isStr (apt ''status'') ''cancelled'' \<and>
               getTime utcLib (apt ''dateTime'') = Some t1 \<and> \<bar>t1 - 1736936100000\<bar> < 30 * 60 * 1000"
    by (simp add: bookedStore_def isStr_def getTime_def toStr_def utcLib_def utcDates_def)
  have e: "\<not> list_ex (\<lambda>b. isStr (b ''date'') (take 10 (toISOString utcLib 1736936100000))) (getByPrefix ''block:'' [])"
    by (simp add: getByPrefix_def)
  show ?thesis
    using buffer_conflict_rejected [where appointmentData = slotRequest and L = utcLib
            and now = 1736900001000 and uid = "''u2''" and st = bookedStore, OF dt parse_1015]
          buffer_conflict_rejected [where appointmentData = slotRequest and L = utcLib
            and now = 1736900001000 and uid = "''u2''" and st = "[]", OF dt parse_1015] n e
    by simp
qed

subsection \<open>C4: a block takes the whole day\<close>



subsection \<open>Writing the store and its index lists\<close>

lemma kv_get_set [simp]: "kv_get (kv_set k v st) k' = (if k' = k then Some v else kv_get st k')"
  by (simp add: kv_get_def kv_set_def update_conv')

lemma kv_get_del [simp]: "kv_get (kv_del k st) k' = (if k' = k then None else kv_get st k')"
  by (simp add: kv_get_def kv_del_def delete_conv')

lemma pushId_Some:
  "pushId key field newId st = Some st' \<longleftrightarrow>
     (\<exists>ids. indexList st key field = Some ids \<and>
        st' = kv_set key ((case kv_get st key of None \<Rightarrow> [field \<mapsto> JArr []] | Some x \<Rightarrow> x)
                            (field \<mapsto> JArr (ids @ [newId]))) st)"
  by (auto simp: pushId_def indexList_def keysOf_def Let_def split: option.splits jval.splits)

lemma pushId_indexList:
  "pushId key field newId st = Some st' \<Longrightarrow> indexList st key field = Some ids \<Longrightarrow>
   indexList st' key field = Some (ids @ [newId])"
  by (auto simp: pushId_Some indexList_def keysOf_def)

lemma pushId_None: "pushId key field newId st = None \<longleftrightarrow> indexList st key field = None"
  by (auto simp: pushId_def indexList_def keysOf_def Let_def split: option.splits jval.splits)

lemma pushId_other:
  "pushId key field newId st = Some st' \<Longrightarrow> k \<noteq> key \<Longrightarrow> kv_get st' k = kv_get st k"
  by (auto simp: pushId_Some)

lemma resolveOwner_staff:
  assumes "kv_get st (''user:'' @ uid) = Some profile" and "isStaff profile"
    and "appointmentData ''petId'' = Some pid" and "pid \<noteq> []"
  shows "resolveOwner st uid appointmentData =
     (case kv_get st pid of
        None \<Rightarrow> Inl (Failure 404 ''Pet not found'' None)
      | Some pet \<Rightarrow> if truthy (pet ''ownerId'') then Inr (the (pet ''ownerId'')) else Inr (JStr uid))"
  using assms
  by (auto simp: resolveOwner_def Let_def to_obj_def truthy_def tmpl_def toStr_def split: option.splits)

lemma resolveOwner_owner:
  assumes "\<forall>profile. kv_get st (''user:'' @ uid) = Some profile \<longrightarrow> \<not> isStaff profile"
  shows "resolveOwner st uid appointmentData = Inr (JStr uid)"
  using assms by (auto simp: resolveOwner_def Let_def split: option.splits)

lemma create_free_slot:
  assumes "getTime L (to_obj appointmentData ''dateTime'') = Some t"
    and "\<not> list_ex (\<lambda>b. isStr (b ''date'') (take 10 (toISOString L t))) (getByPrefix ''block:'' st)"
    and "\<not> list_ex (conflictsWith L (Some t)) (getByPrefix ''appointment:'' st)"
  shows "createAppointment L now (Some uid) appointmentData st =
     (case resolveOwner st uid appointmentData of
        Inl notFound \<Rightarrow> (st, Inl notFound)
      | Inr appointmentUserId \<Rightarrow>
          let appointment = newAppointment L now (''appointment:'' @ show_int now) appointmentUserId appointmentData;
              st1 = kv_set (''appointment:'' @ show_int now) appointment st
          in (case pushId (''user:'' @ toStr appointmentUserId @ '':appointments'')
                     ''appointmentIds'' (''appointment:'' @ show_int now) st1 of
                None \<Rightarrow> (st1, Inl (Failure 500 ''Failed to create appointment'' None))
              | Some st2 \<Rightarrow> (st2, Inr appointment)))"
  using assms by (simp add: createAppointment_def Let_def split: sum.splits option.splits)

lemma indexList_set_other:
  "k \<noteq> key \<Longrightarrow> indexList (kv_set k v st) key field = indexList st key field"
  by (simp add: indexList_def)

lemma newAppointment_userId:
  "appointmentData ''userId'' = None \<Longrightarrow>
   newAppointment L now i u appointmentData ''userId'' = Some u"
  by (simp add: newAppointment_def to_obj_def map_add_def)

lemma create_for:
  assumes slot: "getTime L (to_obj appointmentData ''dateTime'') = Some t"
    "\<not> list_ex (\<lambda>b. isStr (b ''date'') (take 10 (toISOString L t))) (getByPrefix ''block:'' st)"
    "\<not> list_ex (conflictsWith L (Some t)) (getByPrefix ''appointment:'' st)"
    and own: "resolveOwner st uid appointmentData = Inr (JStr U)"
    and ix: "indexList st (''user:'' @ U @ '':appointments'') ''appointmentIds'' = Some ids"
    and form: "appointmentData ''userId'' = None"
  shows "\<exists>st' apt. createAppointment L now (Some uid) appointmentData st = (st', Inr apt)
           \<and> apt ''userId'' = Some (JStr U)
           \<and> apt ''status'' = Some (JStr ''pending'')
           \<and> kv_get st' (''appointment:'' @ show_int now) = Some apt
           \<and> indexList st' (''user:'' @ U @ '':appointments'') ''appointmentIds''
                = Some (ids @ [''appointment:'' @ show_int now])"
proof -
  let ?id = "''appointment:'' @ show_int now"
  let ?key = "''user:'' @ U @ '':appointments''"
  let ?apt = "newAppointment L now ?id (JStr U) appointmentData"
  let ?st1 = "kv_set ?id ?apt st"
  have ne: "?id \<noteq> ?key" by simp
  have ix1: "indexList ?st1 ?key ''appointmentIds'' = Some ids"
    using ix ne by (simp add: indexList_set_other)
  then obtain st2 where p: "pushId ?key ''appointmentIds'' ?id ?st1 = Some st2"
    using pushId_None [of ?key "''appointmentIds''" ?id ?st1] by (cases "pushId ?key ''appointmentIds'' ?id ?st1") auto
  have c: "createAppointment L now (Some uid) appointmentData st = (st2, Inr ?apt)"
    using p own by (simp add: create_free_slot [OF slot] Let_def toStr_def)
  have g: "kv_get st2 ?id = Some ?apt"
    using pushId_other [OF p, of ?id] ne by simp
  have s: "?apt ''status'' = Some (JStr ''pending'')"
    by (simp add: newAppointment_def)
  show ?thesis
    using c g s newAppointment_userId [where appointmentData = appointmentData, OF form]
      pushId_indexList [OF p ix1] by blast
qed

lemma create_stored:
  assumes slot: "getTime L (to_obj appointmentData ''dateTime'') = Some t"
    "\<not> list_ex (\<lambda>b. isStr (b ''date'') (take 10 (toISOString L t))) (getByPrefix ''block:'' st)"
    "\<not> list_ex (conflictsWith L (Some t)) (getByPrefix ''appointment:'' st)"
    and own: "resolveOwner st uid appointmentData = Inr (JStr U)"
    and ix: "indexList st (''user:'' @ U @ '':appointments'') ''appointmentIds'' = Some ids"
  shows "\<exists>st'. createAppointment L now (Some uid) appointmentData st =
              (st', Inr (newAppointment L now (''appointment:'' @ show_int now) (JStr U) appointmentData))
           \<and> kv_get st' (''appointment:'' @ show_int now) =
               Some (newAppointment L now (''appointment:'' @ show_int now) (JStr U) appointmentData)
           \<and> indexList st' (''user:'' @ U @ '':appointments'') ''appointmentIds''
                = Some (ids @ [''appointment:'' @ show_int now])"
proof -
  let ?id = "''appointment:'' @ show_int now"
  let ?key = "''user:'' @ U @ '':appointments''"
  let ?apt = "newAppointment L now ?id (JStr U) appointmentData"
  let ?st1 = "kv_set ?id ?apt st"
  have ne: "?id \<noteq> ?key" by simp
  have ix1: "indexList ?st1 ?key ''appointmentIds'' = Some ids"
    using ix ne by (simp add: indexList_set_other)
  then obtain st2 where p: "pushId ?key ''appointmentIds'' ?id ?st1 = Some st2"
    using pushId_None [of ?key "''appointmentIds''" ?id ?st1] by (cases "pushId ?key ''appointmentIds'' ?id ?st1") auto
  have c: "createAppointment L now (Some uid) appointmentData st = (st2, Inr ?apt)"
    using p own by (simp add: create_free_slot [OF slot] Let_def toStr_def)
  have g: "kv_get st2 ?id = Some ?apt"
    using pushId_other [OF p, of ?id] ne by simp
  show ?thesis
    using c g pushId_indexList [OF p ix1] by blast
qed

lemma getByPrefix_append: "getByPrefix p (a @ b) = getByPrefix p a @ getByPrefix p b"
  by (simp add: getByPrefix_def)

lemma getByPrefix_Cons:
  "getByPrefix p ((k, v) # st) = (if prefix p k then v # getByPrefix p st else getByPrefix p st)"
  by (simp add: getByPrefix_def)

lemma conflictsWith_cancelled:
  "isStr (apt ''status'') ''cancelled'' \<Longrightarrow> conflictsWith L rt apt = False"
  by (simp add: conflictsWith_def)

lemma computeStats_missed:
  "missedAppointments (computeStats L now apts pets users) =
     length (filter (\<lambda>apt. case getTime L (apt ''dateTime'') of
                              None \<Rightarrow> False
                            | Some aptTime \<Rightarrow> isStr (apt ''status'') ''pending'' \<and> aptTime < now) apts)"
  by (simp add: computeStats_def Let_def)

lemma nonNull_append: "nonNull (xs @ ys) = nonNull xs @ nonNull ys"
  by (induction xs rule: nonNull.induct) simp_all

lemma cancelled_not_pending:
  "isStr (apt ''status'') ''cancelled'' \<Longrightarrow> \<not> isStr (apt ''status'') ''pending''"
  by (simp add: isStr_def)

lemma show_now [simp]: "show_int 1736900001000 = ''1736900001000''"
  by (simp add: show_int_def show_nat.simps digit_char_def)

lemma resolveOwner_404:
  "resolveOwner st uid appointmentData = Inl f \<Longrightarrow>
     \<exists>profile. kv_get st (''user:'' @ uid) = Some profile \<and> isStaff profile"
  by (auto simp: resolveOwner_def Let_def split: if_splits option.splits)

lemma create_404_staff:
  "http_status (snd (createAppointment L now (Some uid) appointmentData st)) = 404 \<Longrightarrow>
     \<exists>profile. kv_get st (''user:'' @ uid) = Some profile \<and> isStaff profile"
  by (auto simp: createAppointment_def Let_def http_status_def
           split: option.splits if_splits sum.splits dest: resolveOwner_404)

subsection \<open>C7: cancelled appointments are left out\<close>

text \<open>
  Claim C7. An appointment with status \<^verbatim>\<open>cancelled\<close> can be taken out of what the
  routes scan without changing the outcome: the conflict test of a new booking (and with
  it whether \<^verbatim>\<open>POST /appointments\<close> answers 409), the reminders of
  \<^verbatim>\<open>GET /reminders\<close>, and the missed count of the dashboard are the same with it and
  without it.
\<close>
theorem cancelled_excluded:
  assumes "isStr (apt ''status'') ''cancelled''"
  shows "list_ex (conflictsWith L rt) (xs @ apt # ys) = list_ex (conflictsWith L rt) (xs @ ys)
       \<and> (prefix ''appointment:'' k \<longrightarrow>
            (http_status (snd (createAppointment L now user appointmentData (st1 @ (k, apt) # st2))) = 409
             \<longleftrightarrow> http_status (snd (createAppointment L now user appointmentData (st1 @ st2))) = 409))
       \<and> buildReminders L now dismissed (as @ Some apt # bs) pets
            = buildReminders L now dismissed (as @ bs) pets
       \<and> missedAppointments (computeStats L now (xs @ apt # ys) allPets allUsers)
            = missedAppointments (computeStats L now (xs @ ys) allPets allUsers)"
proof -
  have a: "list_ex (conflictsWith L rt) (xs @ apt # ys) = list_ex (conflictsWith L rt) (xs @ ys)" for rt xs ys
    using assms by (simp add: list_ex_iff conflictsWith_cancelled)
  have b: "http_status (snd (createAppointment L now user appointmentData (st1 @ (k, apt) # st2))) = 409
             \<longleftrightarrow> http_status (snd (createAppointment L now user appointmentData (st1 @ st2))) = 409"
    if k: "prefix ''appointment:'' k"
  proof (cases user)
    case None
    then show ?thesis by (simp add: createAppointment_def)
  next
    case (Some uid)
    show ?thesis
    proof (cases "getTime L (to_obj appointmentData ''dateTime'')")
      case None
      then show ?thesis using Some by (simp add: createAppointment_def Let_def)
    next
      case (Some t)
      have nb: "\<not> prefix ''block:'' k" using k by (auto simp: prefix_def)
      have blk: "getByPrefix ''block:'' (st1 @ (k, apt) # st2) = getByPrefix ''block:'' (st1 @ st2)"
        using nb by (simp add: getByPrefix_append getByPrefix_Cons)
      have apts: "getByPrefix ''appointment:'' (st1 @ (k, apt) # st2)
                   = getByPrefix ''appointment:'' st1 @ apt # getByPrefix ''appointment:'' st2"
        using k by (simp add: getByPrefix_append getByPrefix_Cons)
      have e: "list_ex (conflictsWith L (Some t)) (getByPrefix ''appointment:'' (st1 @ (k, apt) # st2))
                = list_ex (conflictsWith L (Some t)) (getByPrefix ''appointment:'' (st1 @ st2))"
        using k assms by (simp add: getByPrefix_append getByPrefix_Cons list_ex_iff conflictsWith_cancelled)
      show ?thesis
        unfolding \<open>user = Some uid\<close> create_status_409 [OF Some] blk e by (rule refl)
    qed
  qed
  have c: "buildReminders L now dismissed (as @ Some apt # bs) pets
            = buildReminders L now dismissed (as @ bs) pets"
    using assms by (simp add: buildReminders_def nonNull_append cancelled_not_pending)
  have d: "missedAppointments (computeStats L now (xs @ apt # ys) allPets allUsers)
            = missedAppointments (computeStats L now (xs @ ys) allPets allUsers)"
    using assms by (simp add: computeStats_missed cancelled_not_pending split: option.splits)
  from a b c d show ?thesis by blast
qed

theorem cancelled_excluded_witness:
  "isStr (cancelledVisit ''status'') ''cancelled''
   \<and> http_status (snd (createAppointment utcLib 1736900001000 (Some ''u2'') slotRequest
         ([] @ (''appointment:1736900000500'', cancelledVisit) # []))) \<noteq> 409
   \<and> buildReminders utcLib 1736900001000 Map.empty ([] @ Some cancelledVisit # []) [] = []
   \<and> missedAppointments (computeStats utcLib 1737000000000 ([] @ cancelledVisit # []) [] []) = 0"
proof -
  have c: "isStr (cancelledVisit ''status'') ''cancelled''"
    by (simp add: cancelledVisit_def isStr_def)
  have p: "prefix ''appointment:'' ''appointment:1736900000500''" by simp
  have rt: "getTime utcLib (to_obj slotRequest ''dateTime'') = Some 1736936100000"
    by (simp add: getTime_def to_obj_def toStr_def slotRequest_def utcLib_def utcDates_def)
  have e: "http_status (snd (createAppointment utcLib 1736900001000 (Some ''u2'') slotRequest ([] @ []))) \<noteq> 409"
    by (simp add: create_status_409 [OF rt] getByPrefix_def)
  have r: "buildReminders utcLib 1736900001000 Map.empty ([] @ []) [] = []"
    by (simp add: buildReminders_def)
  have m: "missedAppointments (computeStats utcLib 1737000000000 ([] @ []) [] []) = 0"
    by (simp add: computeStats_def)
  show ?thesis
    using cancelled_excluded [where apt = cancelledVisit and k = "''appointment:1736900000500''" and L = utcLib
        and now = 1736900001000 and user = "Some ''u2''" and appointmentData = slotRequest
        and ?st1.0 = "[]" and ?st2.0 = "[]" and dismissed = Map.empty and as = "[]" and bs = "[]"
        and pets = "[]", OF c]
      cancelled_excluded [where apt = cancelledVisit and L = utcLib and now = 1737000000000
        and xs = "[]" and ys = "[]" and allPets = "[]" and allUsers = "[]", OF c]
      c p e r m
    by simp
qed

lemma clinic_free:
  "\<not> list_ex (\<lambda>b. isStr (b ''date'') (take 10 (toISOString utcLib 1736936100000))) (getByPrefix ''block:'' clinicStore)"
  "\<not> list_ex (conflictsWith utcLib (Some 1736936100000)) (getByPrefix ''appointment:'' clinicStore)"
  by (simp_all add: clinicStore_def getByPrefix_def)

subsection \<open>C3: whose appointment it is\<close>




subsection \<open>C8: an unknown pet\<close>

text \<open>
  Claim C8 says that a \<^verbatim>\<open>petId\<close> that resolves to no stored pet gives 404 for every
  role. The route looks the pet up only for a staff or admin actor: here an owner books
  for a \<^verbatim>\<open>petId\<close> that is not in the store, and the appointment is created.
\<close>
theorem unknown_pet_owner_counterexample:
  "kv_get clinicStore ''pet:u2:7'' = None
   \<and> slotRequest ''petId'' = Some ''pet:u2:7''
   \<and> http_status (snd (createAppointment utcLib 1736900001000 (Some ''u1'') slotRequest clinicStore)) = 200
   \<and> kv_get (fst (createAppointment utcLib 1736900001000 (Some ''u1'') slotRequest clinicStore))
        ''appointment:1736900001000'' \<noteq> None"
proof -
  have rt: "getTime utcLib (to_obj slotRequest ''dateTime'') = Some 1736936100000"
    by (simp add: getTime_def to_obj_def toStr_def slotRequest_def utcLib_def utcDates_def)
  have u1: "\<forall>profile. kv_get clinicStore (''user:'' @ ''u1'') = Some profile \<longrightarrow> \<not> isStaff profile"
    by (simp add: clinicStore_def kv_get_def isStaff_def isStr_def)
  have ix: "indexList clinicStore (''user:'' @ ''u1'' @ '':appointments'') ''appointmentIds'' = Some []"
    by (simp add: clinicStore_def indexList_def kv_get_def)
  have nu: "slotRequest ''userId'' = None" by (simp add: slotRequest_def)
  obtain st' apt where
    "createAppointment utcLib 1736900001000 (Some ''u1'') slotRequest clinicStore = (st', Inr apt)"
    "kv_get st' (''appointment:'' @ show_int 1736900001000) = Some apt"
    using create_for [where appointmentData = slotRequest, OF rt clinic_free resolveOwner_owner [OF u1] ix nu]
    by blast
  then show ?thesis
    by (simp add: http_status_def clinicStore_def kv_get_def slotRequest_def)
qed

text \<open>
  Claim C8, amended. For an actor whose profile has role staff or admin, a request at a
  valid time that is neither blocked nor in conflict, with a non-empty \<^verbatim>\<open>petId\<close> that
  has no record in the store, is answered with 404 and nothing is written. For an actor
  who is not staff the pet is not looked up, and no request is answered with 404.
\<close>

theorem unknown_pet_staff_404:
  assumes "appointmentData ''dateTime'' = Some dt" and "parse L dt = Some t"
    and "\<not> list_ex (\<lambda>b. isStr (b ''date'') (take 10 (toISOString L t))) (getByPrefix ''block:'' st)"
    and "\<not> list_ex (conflictsWith L (Some t)) (getByPrefix ''appointment:'' st)"
    and "kv_get st (''user:'' @ uid) = Some profile" and "isStaff profile"
    and "appointmentData ''petId'' = Some pid" and "pid \<noteq> []" and "kv_get st pid = None"
  shows "createAppointment L now (Some uid) appointmentData st =
           (st, Inl (Failure 404 ''Pet not found'' None))
       \<and> (\<forall>other req n. (\<forall>p. kv_get st (''user:'' @ other) = Some p \<longrightarrow> \<not> isStaff p) \<longrightarrow>
             http_status (snd (createAppointment L n (Some other) req st)) \<noteq> 404)"
proof -
  have rt: "getTime L (to_obj appointmentData ''dateTime'') = Some t"
    using assms(1,2) by (simp add: getTime_def to_obj_def toStr_def)
  have "resolveOwner st uid appointmentData = Inl (Failure 404 ''Pet not found'' None)"
    using resolveOwner_staff [where appointmentData = appointmentData, OF assms(5) assms(6) assms(7) assms(8)] assms(9)
    by simp
  then have a: "createAppointment L now (Some uid) appointmentData st =
           (st, Inl (Failure 404 ''Pet not found'' None))"
    by (simp add: create_free_slot [OF rt assms(3) assms(4)])
  have b: "\<forall>other req n. (\<forall>p. kv_get st (''user:'' @ other) = Some p \<longrightarrow> \<not> isStaff p) \<longrightarrow>
             http_status (snd (createAppointment L n (Some other) req st)) \<noteq> 404"
    using create_404_staff by blast
  from a b show ?thesis by blast
qed

theorem unknown_pet_staff_404_witness:
  "createAppointment utcLib 1736900001000 (Some ''s1'') slotRequest clinicStore =
     (clinicStore, Inl (Failure 404 ''Pet not found'' None))
   \<and> http_status (snd (createAppointment utcLib 1736900001000 (Some ''u1'') slotRequest clinicStore)) \<noteq> 404"
proof -
  have dt: "slotRequest ''dateTime'' = Some ''2025-01-15T10:15:00.000Z''"
    and pid: "slotRequest ''petId'' = Some ''pet:u2:7''"
    by (simp_all add: slotRequest_def)
  have s1: "kv_get clinicStore (''user:'' @ ''s1'') = Some (snd (hd clinicStore))" "isStaff (snd (hd clinicStore))"
    by (simp_all add: clinicStore_def kv_get_def isStaff_def isStr_def)
  have np: "kv_get clinicStore ''pet:u2:7'' = None" "''pet:u2:7'' \<noteq> []"
    by (simp_all add: clinicStore_def kv_get_def)
  have u1: "\<forall>profile. kv_get clinicStore (''user:'' @ ''u1'') = Some profile \<longrightarrow> \<not> isStaff profile"
    by (simp add: clinicStore_def kv_get_def isStaff_def isStr_def)
  show ?thesis
    using unknown_pet_staff_404 [where appointmentData = slotRequest and L = utcLib
             and now = 1736900001000 and st = clinicStore and uid = "''s1''",
             OF dt parse_1015 clinic_free s1 pid np(2) np(1)] u1
    by blast
qed

text \<open>For an actor who is not staff the appointment is created whatever the
  \<^verbatim>\<open>petId\<close>, at a valid time that is neither blocked nor in conflict.\<close>

lemma owner_booking_created:
  assumes "getTime L (to_obj appointmentData ''dateTime'') = Some t"
    and "\<not> list_ex (\<lambda>b. isStr (b ''date'') (take 10 (toISOString L t))) (getByPrefix ''block:'' st)"
    and "\<not> list_ex (conflictsWith L (Some t)) (getByPrefix ''appointment:'' st)"
    and "\<forall>profile. kv_get st (''user:'' @ uid) = Some profile \<longrightarrow> \<not> isStaff profile"
    and "indexList st (''user:'' @ uid @ '':appointments'') ''appointmentIds'' = Some ids"
  shows "\<exists>st' apt. createAppointment L now (Some uid) appointmentData st = (st', Inr apt)
           \<and> kv_get st' (''appointment:'' @ show_int now) = Some apt
           \<and> indexList st' (''user:'' @ uid @ '':appointments'') ''appointmentIds''
                = Some (ids @ [''appointment:'' @ show_int now])"
  using create_stored [where appointmentData = appointmentData,
          OF assms(1) assms(2) assms(3) resolveOwner_owner [OF assms(4)] assms(5)]
  by blast

subsection \<open>C10: updating an appointment\<close>

text \<open>
  Claim C10 lists 401, 404 and 403 as the only failures of an update. The route reads
  \<^verbatim>\<open>profile.role\<close> without the check for a missing profile that the staff-only routes
  and \<^verbatim>\<open>POST /appointments\<close> make: an authenticated user with no profile record who
  updates the appointment of another user gets the 500 of the \<^verbatim>\<open>catch\<close>, not the 403.
\<close>
theorem update_without_profile:
  "updateAppointment utcLib 1736900002000 (Some ''u9'') ''appointment:1736900000000''
      [''status'' \<mapsto> ''cancelled''] bookedStore
     = (bookedStore, Inl (Failure 500 ''Failed to update appointment'' None))"
  by (simp add: updateAppointment_def bookedStore_def kv_get_def isStr_def Let_def)

text \<open>The rest of the claim holds: no update is answered with 409, and the update of the
  appointment's user or of a staff profile is written whatever its new time is.\<close>

lemma updateAppointment_never_409:
  "http_status (snd (updateAppointment L now user i updates st)) \<in> {200, 401, 403, 404, 500}"
  by (simp add: updateAppointment_def http_status_def Let_def split: option.splits)

lemma updateAppointment_authorized:
  assumes "kv_get st i = Some appointment"
    and "isStr (appointment ''userId'') uid \<or> (\<exists>p. kv_get st (''user:'' @ uid) = Some p \<and> isStaff p)"
  shows "updateAppointment L now (Some uid) i updates st =
     (kv_set i (appointment ++ to_obj updates ++ [''updatedAt'' \<mapsto> JStr (toISOString L now)]) st,
      Inr (appointment ++ to_obj updates ++ [''updatedAt'' \<mapsto> JStr (toISOString L now)]))"
  using assms by (auto simp: updateAppointment_def Let_def)

subsection \<open>The duplicate test\<close>

lemma lowerOf_text:
  "(\<forall>ss. v \<noteq> Some (JArr ss)) \<Longrightarrow> lowerOf v = Some (toLowerCase (fieldText v))"
  by (auto simp: lowerOf_def orEmpty_def truthy_def fieldText_def toLowerCase_def
           split: option.splits jval.splits)

lemma lowerOf_body: "lowerOf (to_obj b f) = Some (toLowerCase (fieldText (to_obj b f)))"
  by (rule lowerOf_text) (auto simp: to_obj_def)

lemma orEmpty_text:
  "(\<forall>ss. v \<noteq> Some (JArr ss)) \<Longrightarrow> orEmpty v = JStr (fieldText v)"
  by (auto simp: orEmpty_def truthy_def fieldText_def split: option.splits jval.splits)

lemma microchip_match:
  "(truthy (to_obj c ''microchipId'') \<and> truthy (p ''microchipId'') \<and>
      strictEq (p ''microchipId'') (to_obj c ''microchipId''))
   \<longleftrightarrow> (fieldText (to_obj c ''microchipId'') \<noteq> [] \<and> fieldText (p ''microchipId'') \<noteq> [] \<and>
       fieldText (p ''microchipId'') = fieldText (to_obj c ''microchipId''))"
  by (auto simp: truthy_def strictEq_def fieldText_def to_obj_def split: option.splits jval.splits)

lemma letters_distinct: "distinct (capitals @ smalls)"
  unfolding capitals_def smalls_def by simp

lemma letters_length: "length capitals = length smalls"
  unfolding capitals_def smalls_def by simp

text \<open>The two tables by code units.\<close>

lemma capitals_codes:
  "map of_char capitals = [65 ..< 91] @ [192 ..< 215] @ [216 ..< (223::nat)]"
  by code_simp

lemma smalls_codes:
  "map of_char smalls = map (\<lambda>c. of_char c + (32::nat)) capitals"
  by code_simp

text \<open>For a table of pairs without repetitions, two characters have the same image
  exactly when they are equal or the two sides of one pair.\<close>

lemma lower_pairs:
  assumes D: "distinct (xs @ ys)" and L: "length xs = length ys"
  shows "((case map_of (zip xs ys) c of None \<Rightarrow> c | Some l \<Rightarrow> l)
          = (case map_of (zip xs ys) d of None \<Rightarrow> d | Some l \<Rightarrow> l))
     \<longleftrightarrow> (c = d \<or> (\<exists>i < length xs. (c = xs ! i \<and> d = ys ! i) \<or> (d = xs ! i \<and> c = ys ! i)))"
proof -
  define f where "f = (\<lambda>c. case map_of (zip xs ys) c of None \<Rightarrow> c | Some l \<Rightarrow> l)"
  have dx: "distinct xs" and dy: "distinct ys" and disj: "set xs \<inter> set ys = {}"
    using D by auto
  have up: "f (xs ! i) = ys ! i" if "i < length xs" for i
    using map_of_zip_nth [OF L dx, of i] that L by (simp add: f_def)
  have other: "f c = c" if "c \<notin> set xs" for c
    using map_of_zip_is_None [OF L, of c] that by (simp add: f_def)
  have small: "f (ys ! i) = ys ! i" if "i < length xs" for i
  proof -
    have "ys ! i \<in> set ys" using that L by simp
    with disj have "ys ! i \<notin> set xs" by blast
    then show ?thesis by (rule other)
  qed
  have half: "c = d \<or> (\<exists>i < length xs. (c = xs ! i \<and> d = ys ! i) \<or> (d = xs ! i \<and> c = ys ! i))"
    if e: "f c = f d" and c: "c \<in> set xs" for c d
  proof -
    from c obtain i where i: "i < length xs" "c = xs ! i" by (auto simp: in_set_conv_nth)
    show ?thesis
    proof (cases "d \<in> set xs")
      case True
      then obtain j where j: "j < length xs" "d = xs ! j" by (auto simp: in_set_conv_nth)
      from e have "ys ! i = ys ! j" using up i j by simp
      then have "i = j" using dy i j L by (simp add: nth_eq_iff_index_eq)
      then show ?thesis using i j by simp
    next
      case False
      then have "f d = d" by (rule other)
      with e up i have "d = ys ! i" by simp
      then show ?thesis using i by blast
    qed
  qed
  have "f c = f d \<longleftrightarrow> (c = d \<or> (\<exists>i < length xs. (c = xs ! i \<and> d = ys ! i) \<or> (d = xs ! i \<and> c = ys ! i)))"
  proof
    assume e: "f c = f d"
    show "c = d \<or> (\<exists>i < length xs. (c = xs ! i \<and> d = ys ! i) \<or> (d = xs ! i \<and> c = ys ! i))"
    proof (cases "c \<in> set xs \<or> d \<in> set xs")
      case True
      then show ?thesis using half [of c d] half [of d c] e by auto
    next
      case False
      then show ?thesis using e other by simp
    qed
  next
    assume "c = d \<or> (\<exists>i < length xs. (c = xs ! i \<and> d = ys ! i) \<or> (d = xs ! i \<and> c = ys ! i))"
    then show "f c = f d" using up small by auto
  qed
  then show ?thesis by (simp add: f_def)
qed

lemma lower_char_eq: "lower_char c = lower_char d \<longleftrightarrow> sameLetter c d"
  unfolding lower_char_def sameLetter_def lower_pairs [OF letters_distinct letters_length]
  using letters_length by (auto simp: in_set_zip)

lemma map_eq_all2: "map f a = map f b \<longleftrightarrow> list_all2 (\<lambda>x y. f x = f y) a b"
  by (auto simp: list_eq_iff_nth_eq list_all2_conv_all_nth)

text \<open>Equality after \<^verbatim>\<open>toLowerCase\<close> is the case-insensitive match.\<close>

lemma toLowerCase_eq: "toLowerCase a = toLowerCase b \<longleftrightarrow> sameText a b"
  by (simp add: toLowerCase_def sameText_def map_eq_all2 lower_char_eq)

lemma isDuplicate_spec:
  assumes "textual p"
  shows "isDuplicate c p = Some (spec_duplicate c p)"
proof -
  have t: "\<forall>ss. p ''name'' \<noteq> Some (JArr ss)" "\<forall>ss. p ''species'' \<noteq> Some (JArr ss)"
    "\<forall>ss. p ''breed'' \<noteq> Some (JArr ss)" "\<forall>ss. p ''dateOfBirth'' \<noteq> Some (JArr ss)"
    using assms by (auto simp: textual_def split: option.splits jval.splits)
  have b: "\<forall>ss. to_obj c ''dateOfBirth'' \<noteq> Some (JArr ss)" by (auto simp: to_obj_def)
  show ?thesis
    unfolding isDuplicate_def spec_duplicate_def microchip_match
    by (simp add: lowerOf_text t lowerOf_body orEmpty_text b strictEq_def Let_def toLowerCase_eq)
qed

lemma findDuplicate_spec:
  "list_all textual (nonNull ps) \<Longrightarrow>
   findDuplicate c ps = Some (find (spec_duplicate c) (nonNull ps))"
  by (induction c ps rule: findDuplicate.induct) (simp_all add: isDuplicate_spec)

subsection \<open>C5: duplicate pets\<close>

text \<open>
  Claim C5. Among the pets of the owner's index list (their identifying fields being
  texts), \<^verbatim>\<open>POST /pets\<close> answers 409 exactly when one of them matches the candidate:
  the microchip id is present on both and equal, or name, species and breed are the
  same letter by letter up to capital and small forms and the date of birth is equal.
  The pet attached to the 409 is the first one that matches, and nothing is written.
\<close>
theorem duplicate_pet_rejected:
  assumes "indexList st (''user:'' @ uid @ '':pets'') ''petIds'' = Some petIds"
    and "list_all textual (nonNull (kv_mget st petIds))"
  shows "(createPet L now (Some uid) petData st = (st, Inl (Failure 409 ''Duplicate pet exists'' (Some d)))
           \<longleftrightarrow> find (spec_duplicate petData) (nonNull (kv_mget st petIds)) = Some d)
       \<and> (http_status (snd (createPet L now (Some uid) petData st)) = 409
           \<longleftrightarrow> (\<exists>p \<in> set (nonNull (kv_mget st petIds)). spec_duplicate petData p))"
proof -
  have k: "keysOf ((case kv_get st (''user:'' @ uid @ '':pets'') of
                      None \<Rightarrow> [''petIds'' \<mapsto> JArr []] | Some x \<Rightarrow> x) ''petIds'') = Some petIds"
    using assms(1) by (auto simp: indexList_def keysOf_def split: option.splits)
  note f = findDuplicate_spec [OF assms(2), of petData]
  have a: "createPet L now (Some uid) petData st = (st, Inl (Failure 409 ''Duplicate pet exists'' (Some d)))
           \<longleftrightarrow> find (spec_duplicate petData) (nonNull (kv_mget st petIds)) = Some d"
    using k f by (auto simp: createPet_def Let_def split: option.splits)
  have b: "http_status (snd (createPet L now (Some uid) petData st)) = 409
           \<longleftrightarrow> find (spec_duplicate petData) (nonNull (kv_mget st petIds)) \<noteq> None"
    using k f by (auto simp: createPet_def Let_def http_status_def split: option.splits)
  from a b show ?thesis by (auto simp: find_None_iff)
qed

theorem duplicate_pet_rejected_witness:
  "createPet utcLib 1736900001000 (Some ''u1'') emilieAgain kennelStore
     = (kennelStore, Inl (Failure 409 ''Duplicate pet exists'' (Some (snd (kennelStore ! 2)))))
   \<and> http_status (snd (createPet utcLib 1736900001000 (Some ''u1'') emilieAgain kennelStore)) = 409"
proof -
  have ix: "indexList kennelStore (''user:'' @ ''u1'' @ '':pets'') ''petIds'' = Some [''pet:u1:1'', ''pet:u1:2'']"
    by (simp add: kennelStore_def indexList_def kv_get_def keysOf_def)
  have ps: "nonNull (kv_mget kennelStore [''pet:u1:1'', ''pet:u1:2'']) = [snd (kennelStore ! 1), snd (kennelStore ! 2)]"
    by (simp add: kennelStore_def kv_mget_def kv_get_def)
  have tx: "list_all textual (nonNull (kv_mget kennelStore [''pet:u1:1'', ''pet:u1:2'']))"
    unfolding ps by (simp add: kennelStore_def textual_def)
  have n1: "\<not> spec_duplicate emilieAgain (snd (kennelStore ! 1))"
    by (simp add: kennelStore_def emilieAgain_def spec_duplicate_def fieldText_def to_obj_def
                  sameText_def sameLetter_def capitals_def smalls_def)
  have y2: "spec_duplicate emilieAgain (snd (kennelStore ! 2))"
    by (simp add: kennelStore_def emilieAgain_def spec_duplicate_def fieldText_def to_obj_def
                  sameText_def sameLetter_def capitals_def smalls_def)
  have fd: "find (spec_duplicate emilieAgain) (nonNull (kv_mget kennelStore [''pet:u1:1'', ''pet:u1:2'']))
              = Some (snd (kennelStore ! 2))"
    unfolding ps using n1 y2 by simp
  show ?thesis
    using duplicate_pet_rejected [OF ix tx, of utcLib 1736900001000 emilieAgain "snd (kennelStore ! 2)"] fd y2
    unfolding ps by auto
qed

subsection \<open>The loops of the reminders\<close>

lemma daysUntil_div: "daysUntil t now = - ((now - t) div day_ms)"
  unfolding daysUntil_def using ceiling_divide_eq_div [of "t - now" day_ms] by simp

lemma fold_appointmentStep:
  "fold (appointmentStep L now dismissed) apts rs =
     rs @ map (\<lambda>apt. appointmentReminder apt (the (daysTo L now (apt ''dateTime''))))
            (filter (\<lambda>apt. inWindow 0 7 (daysTo L now (apt ''dateTime'')) \<and>
                           \<not> dismissedIncludes dismissed (appointmentHash apt)) apts)"
  by (induction apts arbitrary: rs)
     (auto simp: appointmentStep_def daysTo_def inWindow_def Let_def split: option.splits)

lemma fold_vaccinationStep:
  "fold (vaccinationStep L now dismissed) pets rs =
     rs @ map (\<lambda>pet. vaccinationReminder pet (the (daysTo L now (pet ''nextVaccinationDate''))))
            (filter (\<lambda>pet. inWindow (-7) 14 (daysTo L now (pet ''nextVaccinationDate'')) \<and>
                           \<not> dismissedIncludes dismissed (vaccinationHash pet)) pets)"
  by (induction pets arbitrary: rs)
     (auto simp: vaccinationStep_def daysTo_def inWindow_def Let_def split: option.splits)

lemma buildReminders_eq:
  "buildReminders L now dismissed appointments pets =
     map (\<lambda>apt. appointmentReminder apt (the (daysTo L now (apt ''dateTime''))))
         (filter (\<lambda>apt. isStr (apt ''status'') ''pending'' \<and>
                         inWindow 0 7 (daysTo L now (apt ''dateTime'')) \<and>
                         \<not> dismissedIncludes dismissed (appointmentHash apt)) (nonNull appointments))
     @ map (\<lambda>pet. vaccinationReminder pet (the (daysTo L now (pet ''nextVaccinationDate''))))
         (filter (\<lambda>pet. truthy (pet ''nextVaccinationDate'') \<and>
                         inWindow (-7) 14 (daysTo L now (pet ''nextVaccinationDate'')) \<and>
                         \<not> dismissedIncludes dismissed (vaccinationHash pet)) (nonNull pets))"
  by (simp add: buildReminders_def fold_appointmentStep fold_vaccinationStep conj_commute)

text \<open>With an array of hashes, \<^verbatim>\<open>includes\<close> is membership in the dismissed set.\<close>

lemma dismissedIncludes_set:
  assumes "dismissedSet st uid = Some hashes"
  shows "dismissedIncludes
           (case kv_get st (''user:'' @ uid @ '':dismissed_reminders'') of
              None \<Rightarrow> [''hashes'' \<mapsto> JArr []] | Some x \<Rightarrow> x) h
         \<longleftrightarrow> h \<in> set hashes"
  using assms
  by (auto simp: dismissedSet_def dismissedIncludes_def truthy_def
           split: option.splits jval.splits)

subsection \<open>C6: the reminder windows\<close>

text \<open>
  Claim C6. With \<open>daysUntil\<close> the ceiling of the days from now to the date, and the
  user's dismissed set the array of hashes stored for the user,
  \<^verbatim>\<open>GET /reminders\<close> returns one appointment reminder for each appointment of the
  user's index list that has status \<^verbatim>\<open>pending\<close>, \<open>0 \<le> daysUntil \<le> 7\<close> and a reminder id
  that is not in the user's dismissed set, and no other; then one vaccination reminder
  for each pet of the user's index list that has a \<^verbatim>\<open>nextVaccinationDate\<close>,
  \<open>-7 \<le> daysUntil \<le> 14\<close> and a reminder id that is not in the user's dismissed set, and
  no other. An appointment reminder has priority high exactly when \<open>daysUntil \<le> 1\<close>, a
  vaccination reminder exactly when \<open>daysUntil \<le> 0\<close>, and medium otherwise.
\<close>
theorem reminder_windows:
  assumes "indexList st (''user:'' @ uid @ '':pets'') ''petIds'' = Some petIds"
    and "indexList st (''user:'' @ uid @ '':appointments'') ''appointmentIds'' = Some appointmentIds"
    and "dismissedSet st uid = Some hashes"
  shows "getReminders L now (Some uid) st =
     Inr (map (\<lambda>apt. appointmentReminder apt (the (daysTo L now (apt ''dateTime''))))
            (filter (\<lambda>apt. isStr (apt ''status'') ''pending'' \<and>
                            inWindow 0 7 (daysTo L now (apt ''dateTime'')) \<and>
                            appointmentHash apt \<notin> set hashes)
               (nonNull (kv_mget st appointmentIds)))
          @ map (\<lambda>pet. vaccinationReminder pet (the (daysTo L now (pet ''nextVaccinationDate''))))
            (filter (\<lambda>pet. truthy (pet ''nextVaccinationDate'') \<and>
                            inWindow (-7) 14 (daysTo L now (pet ''nextVaccinationDate'')) \<and>
                            vaccinationHash pet \<notin> set hashes)
               (nonNull (kv_mget st petIds))))
   \<and> (r_priority (appointmentReminder apt d) = ''high'' \<longleftrightarrow> d \<le> 1)
   \<and> (r_priority (appointmentReminder apt d) = ''medium'' \<longleftrightarrow> 1 < d)
   \<and> (r_priority (vaccinationReminder pet v) = ''high'' \<longleftrightarrow> v \<le> 0)
   \<and> (r_priority (vaccinationReminder pet v) = ''medium'' \<longleftrightarrow> 0 < v)
   \<and> r_id (appointmentReminder apt d) = appointmentHash apt
   \<and> r_id (vaccinationReminder pet v) = vaccinationHash pet"
proof -
  have k1: "keysOf ((case kv_get st (''user:'' @ uid @ '':pets'') of
                      None \<Rightarrow> [''petIds'' \<mapsto> JArr []] | Some x \<Rightarrow> x) ''petIds'') = Some petIds"
    using assms(1) by (auto simp: indexList_def keysOf_def split: option.splits)
  have k2: "keysOf ((case kv_get st (''user:'' @ uid @ '':appointments'') of
                      None \<Rightarrow> [''appointmentIds'' \<mapsto> JArr []] | Some x \<Rightarrow> x) ''appointmentIds'')
              = Some appointmentIds"
    using assms(2) by (auto simp: indexList_def keysOf_def split: option.splits)
  define dismissed where
    "dismissed = (case kv_get st (''user:'' @ uid @ '':dismissed_reminders'') of
                    None \<Rightarrow> [''hashes'' \<mapsto> JArr []] | Some x \<Rightarrow> x)"
  have g: "getReminders L now (Some uid) st =
             Inr (buildReminders L now dismissed (kv_mget st appointmentIds) (kv_mget st petIds))"
    using k1 k2 by (simp add: getReminders_def Let_def dismissed_def)
  have m: "dismissedIncludes dismissed h \<longleftrightarrow> h \<in> set hashes" for h
    unfolding dismissed_def by (rule dismissedIncludes_set [OF assms(3)])
  show ?thesis
    unfolding g buildReminders_eq m
    by (simp add: appointmentReminder_def vaccinationReminder_def)
qed

lemma reminder_days:
  "daysTo utcLib 1736935200000 (Some (JStr ''2025-01-16T10:00:00.000Z'')) = Some 1"
  "daysTo utcLib 1736935200000 (Some (JStr ''2025-01-23T10:00:00.000Z'')) = Some 8"
  "daysTo utcLib 1736935200000 (Some (JStr ''2025-01-29'')) = Some 14"
  by (simp_all add: daysTo_def getTime_def toStr_def utcLib_def utcDates_def
        daysUntil_div day_ms_def)

theorem reminder_windows_witness:
  "getReminders utcLib 1736935200000 (Some ''u1'') reminderStore =
     Inr [appointmentReminder (snd (reminderStore ! 2)) 1, vaccinationReminder (snd (reminderStore ! 5)) 14]
   \<and> r_priority (appointmentReminder (snd (reminderStore ! 2)) 1) = ''high''
   \<and> r_priority (vaccinationReminder (snd (reminderStore ! 5)) 14) = ''medium''
   \<and> dismissedSet reminderStore ''u1'' = Some [''appointment:4'', ''vaccination:pet:u1:2:2025-01-29'']
   \<and> appointmentHash (snd (reminderStore ! 6)) = ''appointment:4''
   \<and> isStr (snd (reminderStore ! 6) ''status'') ''pending''
   \<and> inWindow 0 7 (daysTo utcLib 1736935200000 (snd (reminderStore ! 6) ''dateTime''))
   \<and> vaccinationHash (snd (reminderStore ! 7)) = ''vaccination:pet:u1:2:2025-01-29''
   \<and> inWindow (-7) 14 (daysTo utcLib 1736935200000 (snd (reminderStore ! 7) ''nextVaccinationDate''))"
proof -
  have ip: "indexList reminderStore (''user:'' @ ''u1'' @ '':pets'') ''petIds'' = Some [''pet:u1:1'', ''pet:u1:2'']"
    by (simp add: reminderStore_def indexList_def kv_get_def keysOf_def)
  have ia: "indexList reminderStore (''user:'' @ ''u1'' @ '':appointments'') ''appointmentIds''
              = Some [''appointment:1'', ''appointment:2'', ''appointment:3'', ''appointment:4'']"
    by (simp add: reminderStore_def indexList_def kv_get_def keysOf_def)
  have d: "dismissedSet reminderStore ''u1'' = Some [''appointment:4'', ''vaccination:pet:u1:2:2025-01-29'']"
    by (simp add: reminderStore_def dismissedSet_def kv_get_def)
  have as: "nonNull (kv_mget reminderStore [''appointment:1'', ''appointment:2'', ''appointment:3'', ''appointment:4''])
             = [snd (reminderStore ! 2), snd (reminderStore ! 3), snd (reminderStore ! 4), snd (reminderStore ! 6)]"
    by (simp add: reminderStore_def kv_mget_def kv_get_def)
  have ps: "nonNull (kv_mget reminderStore [''pet:u1:1'', ''pet:u1:2''])
             = [snd (reminderStore ! 5), snd (reminderStore ! 7)]"
    by (simp add: reminderStore_def kv_mget_def kv_get_def)
  have f: "snd (reminderStore ! 2) ''status'' = Some (JStr ''pending'')"
    "snd (reminderStore ! 2) ''dateTime'' = Some (JStr ''2025-01-16T10:00:00.000Z'')"
    "snd (reminderStore ! 3) ''status'' = Some (JStr ''pending'')"
    "snd (reminderStore ! 3) ''dateTime'' = Some (JStr ''2025-01-23T10:00:00.000Z'')"
    "snd (reminderStore ! 4) ''status'' = Some (JStr ''approved'')"
    "snd (reminderStore ! 5) ''nextVaccinationDate'' = Some (JStr ''2025-01-29'')"
    "snd (reminderStore ! 6) ''status'' = Some (JStr ''pending'')"
    "snd (reminderStore ! 6) ''dateTime'' = Some (JStr ''2025-01-16T10:00:00.000Z'')"
    "snd (reminderStore ! 7) ''nextVaccinationDate'' = Some (JStr ''2025-01-29'')"
    by (simp_all add: reminderStore_def)
  have h: "appointmentHash (snd (reminderStore ! 2)) = ''appointment:1''"
    "appointmentHash (snd (reminderStore ! 3)) = ''appointment:2''"
    "appointmentHash (snd (reminderStore ! 4)) = ''appointment:3''"
    "appointmentHash (snd (reminderStore ! 6)) = ''appointment:4''"
    "vaccinationHash (snd (reminderStore ! 5)) = ''vaccination:pet:u1:1:2025-01-29''"
    "vaccinationHash (snd (reminderStore ! 7)) = ''vaccination:pet:u1:2:2025-01-29''"
    by (simp_all add: reminderStore_def appointmentHash_def vaccinationHash_def tmpl_def toStr_def)
  show ?thesis
    using reminder_windows [OF ip ia d, where L = utcLib and now = 1736935200000
            and apt = "snd (reminderStore ! 2)" and d = 1 and pet = "snd (reminderStore ! 5)" and v = 14]
    unfolding as ps
    by (simp add: f h d reminder_days isStr_def inWindow_def truthy_def)
qed

subsection \<open>Counting entries\<close>

lemma length_filter_keys:
  assumes "distinct (map fst st)"
  shows "length (filter Q st) = card {k. \<exists>v. (k, v) \<in> set st \<and> Q (k, v)}"
proof -
  have d: "distinct (map fst (filter Q st))"
    using assms by (rule distinct_map_filter)
  have "length (filter Q st) = length (map fst (filter Q st))" by simp
  also have "\<dots> = card (set (map fst (filter Q st)))"
    using d by (simp only: distinct_card)
  also have "set (map fst (filter Q st)) = {k. \<exists>v. (k, v) \<in> set st \<and> Q (k, v)}"
    by (auto simp: image_iff)
  finally show ?thesis .
qed

lemma length_filter_getByPrefix:
  "length (filter P (getByPrefix p st)) = length (filter (\<lambda>kv. prefix p (fst kv) \<and> P (snd kv)) st)"
  by (simp add: getByPrefix_def filter_map o_def conj_commute)

lemma count_getByPrefix:
  assumes "distinct (map fst st)"
  shows "length (filter P (getByPrefix p st)) = card {k. \<exists>v. (k, v) \<in> set st \<and> prefix p k \<and> P v}"
  unfolding length_filter_getByPrefix using length_filter_keys [OF assms, of "\<lambda>kv. prefix p (fst kv) \<and> P (snd kv)"]
  by simp

lemma dashboardStats_Inr:
  "dashboardStats L now user st = Inr s \<Longrightarrow>
     s = computeStats L now (getByPrefix ''appointment:'' st) (getByPrefix ''pet:'' st) (getByPrefix ''user:'' st)"
  by (auto simp: dashboardStats_def split: option.splits if_splits)

lemma computeStats_week:
  "weekAppointments (computeStats L now apts pets users) =
     length (filter (\<lambda>apt. case getTime L (apt ''dateTime'') of
                              None \<Rightarrow> False
                            | Some t \<Rightarrow> startOfDay L now - 7 * day_ms \<le> t \<and> t \<le> now) apts)"
  by (simp add: computeStats_def Let_def day_ms_def cong: option.case_cong)

lemma computeStats_pets: "totalPets (computeStats L now apts pets users) = length pets"
  by (simp add: computeStats_def Let_def)

subsection \<open>C9: the dashboard counts\<close>

text \<open>
  Claim C9 gives the week as the closed interval from \<open>now - 7\<close> days to \<open>now\<close>. The
  route starts the week at midnight of today minus seven days: at 10:00 an appointment
  seven days and one hour back is outside the claim's interval, and is counted.
\<close>
theorem week_window_counterexample:
  "(\<exists>s. dashboardStats utcLib 1736935200000 (Some ''s1'') weekStore = Inr s \<and> weekAppointments s = 1)
   \<and> spec_weekCount utcLib 1736935200000 (getByPrefix ''appointment:'' weekStore) = 0"
  by (simp add: dashboardStats_def weekStore_def kv_get_def isStaff_def isStr_def getByPrefix_def
        computeStats_week spec_weekCount_def getTime_def toStr_def utcLib_def utcDates_def day_ms_def)

text \<open>
  Claim C9, amended. In a table with one entry per key, the week count of the dashboard
  is the number of appointments whose time lies between midnight of today minus seven
  days and now, the missed count is the number of appointments with status
  \<^verbatim>\<open>pending\<close> and a time before now, and, as long as no index list of health records
  is stored under a key that starts with \<^verbatim>\<open>pet:\<close>, the total of pets is the number of
  pet records.
\<close>

theorem dashboard_counts:
  assumes "distinct (map fst st)" and "dashboardStats L now user st = Inr s"
  shows "weekAppointments s =
           card {k. \<exists>apt. (k, apt) \<in> set st \<and> prefix ''appointment:'' k \<and>
                   (case getTime L (apt ''dateTime'') of
                      None \<Rightarrow> False
                    | Some t \<Rightarrow> startOfDay L now - 7 * day_ms \<le> t \<and> t \<le> now)}
       \<and> missedAppointments s =
           card {k. \<exists>apt. (k, apt) \<in> set st \<and> prefix ''appointment:'' k \<and>
                   (case getTime L (apt ''dateTime'') of
                      None \<Rightarrow> False
                    | Some t \<Rightarrow> isStr (apt ''status'') ''pending'' \<and> t < now)}
       \<and> ((\<forall>k \<in> fst ` set st. prefix ''pet:'' k \<longrightarrow> \<not> suffix '':records'' k) \<longrightarrow>
            totalPets s = card {k \<in> fst ` set st. prefix ''pet:'' k \<and> \<not> suffix '':records'' k})"
proof -
  note s = dashboardStats_Inr [OF assms(2)]
  have w: "weekAppointments s =
           card {k. \<exists>apt. (k, apt) \<in> set st \<and> prefix ''appointment:'' k \<and>
                   (case getTime L (apt ''dateTime'') of
                      None \<Rightarrow> False
                    | Some t \<Rightarrow> startOfDay L now - 7 * day_ms \<le> t \<and> t \<le> now)}"
    unfolding s computeStats_week by (rule count_getByPrefix [OF assms(1)])
  have m: "missedAppointments s =
           card {k. \<exists>apt. (k, apt) \<in> set st \<and> prefix ''appointment:'' k \<and>
                   (case getTime L (apt ''dateTime'') of
                      None \<Rightarrow> False
                    | Some t \<Rightarrow> isStr (apt ''status'') ''pending'' \<and> t < now)}"
    unfolding s computeStats_missed by (rule count_getByPrefix [OF assms(1)])
  have p: "totalPets s = card {k. \<exists>v. (k, v) \<in> set st \<and> prefix ''pet:'' k \<and> True}"
    unfolding s computeStats_pets
    using count_getByPrefix [OF assms(1), of "\<lambda>v. True" "''pet:''"] by simp
  have p': "totalPets s = card {k \<in> fst ` set st. prefix ''pet:'' k \<and> \<not> suffix '':records'' k}"
    if "\<forall>k \<in> fst ` set st. prefix ''pet:'' k \<longrightarrow> \<not> suffix '':records'' k"
  proof -
    have "{k. \<exists>v. (k, v) \<in> set st \<and> prefix ''pet:'' k \<and> True}
           = {k \<in> fst ` set st. prefix ''pet:'' k \<and> \<not> suffix '':records'' k}"
      using that by (auto simp: image_iff) force
    then show ?thesis using p by simp
  qed
  from w m p' show ?thesis by blast
qed


lemma weekStore_stats:
  "dashboardStats utcLib 1736935200000 (Some ''s1'') weekStore =
     Inr (computeStats utcLib 1736935200000 (getByPrefix ''appointment:'' weekStore)
            (getByPrefix ''pet:'' weekStore) (getByPrefix ''user:'' weekStore))"
  by (simp add: dashboardStats_def weekStore_def kv_get_def isStaff_def isStr_def)

theorem dashboard_counts_witness:
  "card {k. \<exists>apt. (k, apt) \<in> set weekStore \<and> prefix ''appointment:'' k \<and>
            (case getTime utcLib (apt ''dateTime'') of
               None \<Rightarrow> False
             | Some t \<Rightarrow> startOfDay utcLib 1736935200000 - 7 * day_ms \<le> t \<and> t \<le> 1736935200000)} = 1
   \<and> card {k. \<exists>apt. (k, apt) \<in> set weekStore \<and> prefix ''appointment:'' k \<and>
            (case getTime utcLib (apt ''dateTime'') of
               None \<Rightarrow> False
             | Some t \<Rightarrow> isStr (apt ''status'') ''pending'' \<and> t < 1736935200000)} = 1
   \<and> card {k \<in> fst ` set weekStore. prefix ''pet:'' k \<and> \<not> suffix '':records'' k} = 1"
proof -
  let ?s = "computeStats utcLib 1736935200000 (getByPrefix ''appointment:'' weekStore)
              (getByPrefix ''pet:'' weekStore) (getByPrefix ''user:'' weekStore)"
  have d: "distinct (map fst weekStore)" by (simp add: weekStore_def)
  have h: "\<forall>k \<in> fst ` set weekStore. prefix ''pet:'' k \<longrightarrow> \<not> suffix '':records'' k"
    by (simp add: weekStore_def suffix_to_prefix)
  have w: "weekAppointments ?s = 1"
    by (simp add: computeStats_week weekStore_def getByPrefix_def getTime_def toStr_def
          utcLib_def utcDates_def day_ms_def)
  have m: "missedAppointments ?s = 1"
    by (simp add: computeStats_missed weekStore_def getByPrefix_def getTime_def toStr_def
          utcLib_def utcDates_def isStr_def)
  have p: "totalPets ?s = 1"
    by (simp add: computeStats_pets weekStore_def getByPrefix_def)
  show ?thesis
    using dashboard_counts [OF d weekStore_stats] h w m p by simp
qed

text \<open>
  The total of pets is the length of the scan of the prefix \<^verbatim>\<open>pet:\<close>, and the index
  list of a pet's health records is kept under the key \<^verbatim>\<open><petId>:records\<close>, which
  has that prefix: once a health record has been added for the one pet of the store, the
  dashboard counts two pets.
\<close>

lemma total_pets_counts_record_lists:
  "\<exists>st' r s. createHealthRecord utcLib 1736900001000 (Some ''s1'') checkupRecord weekStore = (st', Inr r)
      \<and> map fst st' = [''user:s1'', ''appointment:1736000000000'', ''pet:u1:1'',
                        ''record:pet:u1:1:1736900001000'', ''pet:u1:1:records'']
      \<and> dashboardStats utcLib 1736935200000 (Some ''s1'') st' = Inr s \<and> totalPets s = 2"
  by (simp add: createHealthRecord_def Let_def pushId_def weekStore_def checkupRecord_def
        to_obj_def tmpl_def toStr_def kv_get_def kv_set_def dashboardStats_def isStaff_def isStr_def
        computeStats_pets getByPrefix_def)

subsection \<open>C2: the index lists\<close>

text \<open>The keys of the index lists and the ids of the records are all different.\<close>

lemma ne_by_suffix: "\<not> suffix a b \<Longrightarrow> \<not> suffix b a \<Longrightarrow> x @ a \<noteq> y @ b"
proof
  assume n: "\<not> suffix a b" "\<not> suffix b a" and e: "x @ a = y @ b"
  have "suffix a (x @ a)" by (simp add: suffixI)
  moreover have "suffix b (x @ a)" unfolding e by (simp add: suffixI)
  ultimately have "suffix a b \<or> suffix b a" by (rule suffix_same_cases)
  with n show False by simp
qed

lemma index_keys_ne:
  "''user:'' @ u @ '':pets'' \<noteq> ''user:'' @ w @ '':appointments''"
  "''user:'' @ u @ '':pets'' \<noteq> p @ '':records''"
  "''user:'' @ u @ '':appointments'' \<noteq> p @ '':records''"
  using ne_by_suffix [of "'':pets''" "'':appointments''" "''user:'' @ u" "''user:'' @ w"]
        ne_by_suffix [of "'':pets''" "'':records''" "''user:'' @ u" p]
        ne_by_suffix [of "'':appointments''" "'':records''" "''user:'' @ u" p]
  by (simp_all add: suffix_to_prefix)

lemma digit_char_ne_s: "d < 10 \<Longrightarrow> digit_char d \<noteq> CHR ''s''"
proof -
  assume "d < 10"
  then have "''0123456789'' ! d \<in> set ''0123456789''" by (intro nth_mem) simp
  then show ?thesis unfolding digit_char_def by auto
qed

lemma show_nat_last: "show_nat n \<noteq> [] \<and> last (show_nat n) \<noteq> CHR ''s''"
  by (subst (1 2) show_nat.simps) (simp add: digit_char_ne_s)

lemma show_int_last: "show_int n \<noteq> [] \<and> last (show_int n) \<noteq> CHR ''s''"
  using show_nat_last by (simp add: show_int_def)

lemma id_ne_records: "x @ show_int n \<noteq> p @ '':records''"
proof
  assume "x @ show_int n = p @ '':records''"
  then have "last (x @ show_int n) = last (p @ '':records'')" by simp
  then have "last (show_int n) = CHR ''s''" using show_int_last [of n] by simp
  then show False using show_int_last [of n] by simp
qed

lemma id_not_suffix_records: "\<not> suffix '':records'' (x @ show_int n)"
  using id_ne_records [of x n] by (auto simp: suffix_def)

subsection \<open>One family of index lists\<close>

lemma indexList_set:
  "indexList (kv_set K v st) key field = (if key = K then keysOf (v field) else indexList st key field)"
  by (simp add: indexList_def)

lemma indexList_del:
  "indexList (kv_del K st) key field = (if key = K then Some [] else indexList st key field)"
  by (simp add: indexList_def)

text \<open>A write under a key that is no index key of the family and whose place in the
  family's sets stays what it was.\<close>

lemma indexed_set_other:
  assumes I: "indexed keyOf field isId ref st"
    and nk: "\<forall>u. keyOf u \<noteq> K"
    and mem: "isId K \<Longrightarrow> v ref = (case kv_get st K of None \<Rightarrow> None | Some old \<Rightarrow> old ref)
                \<or> ((\<forall>u. v ref \<noteq> Some (JStr u)) \<and> (\<forall>old u. kv_get st K = Some old \<longrightarrow> old ref \<noteq> Some (JStr u)))"
  shows "indexed keyOf field isId ref (kv_set K v st)"
  unfolding indexed_def
proof
  fix u
  from I obtain ids where ids: "indexList st (keyOf u) field = Some ids"
    "set ids = {k. isId k \<and> (\<exists>v. kv_get st k = Some v \<and> v ref = Some (JStr u))}"
    unfolding indexed_def by blast
  have a: "indexList (kv_set K v st) (keyOf u) field = Some ids"
    using ids(1) nk by (simp add: indexList_set)
  have b: "{k. isId k \<and> (\<exists>w. kv_get (kv_set K v st) k = Some w \<and> w ref = Some (JStr u))}
          = {k. isId k \<and> (\<exists>w. kv_get st k = Some w \<and> w ref = Some (JStr u))}"
    using mem by (auto split: option.splits if_splits)
  show "\<exists>ids. indexList (kv_set K v st) (keyOf u) field = Some ids \<and>
         set ids = {k. isId k \<and> (\<exists>w. kv_get (kv_set K v st) k = Some w \<and> w ref = Some (JStr u))}"
    using a b ids(2) by simp
qed

lemma indexed_del_other:
  assumes I: "indexed keyOf field isId ref st"
    and nk: "\<forall>u. keyOf u \<noteq> K"
    and ni: "\<not> isId K"
  shows "indexed keyOf field isId ref (kv_del K st)"
  unfolding indexed_def
proof
  fix u
  from I obtain ids where ids: "indexList st (keyOf u) field = Some ids"
    "set ids = {k. isId k \<and> (\<exists>v. kv_get st k = Some v \<and> v ref = Some (JStr u))}"
    unfolding indexed_def by blast
  have a: "indexList (kv_del K st) (keyOf u) field = Some ids"
    using ids(1) nk by (simp add: indexList_del)
  have b: "{k. isId k \<and> (\<exists>w. kv_get (kv_del K st) k = Some w \<and> w ref = Some (JStr u))}
          = {k. isId k \<and> (\<exists>w. kv_get st k = Some w \<and> w ref = Some (JStr u))}"
    using ni by auto
  show "\<exists>ids. indexList (kv_del K st) (keyOf u) field = Some ids \<and>
         set ids = {k. isId k \<and> (\<exists>w. kv_get (kv_del K st) k = Some w \<and> w ref = Some (JStr u))}"
    using a b ids(2) by simp
qed

text \<open>The object under an index key with one of its lists replaced: its other fields
  stay.\<close>

lemma indexed_relist_other:
  assumes I: "indexed keyOf field isId ref st"
    and nk: "\<forall>u. keyOf u \<noteq> K"
    and fr: "f \<noteq> ref"
  shows "indexed keyOf field isId ref
           (kv_set K ((case kv_get st K of None \<Rightarrow> [f \<mapsto> JArr []] | Some x \<Rightarrow> x)(f \<mapsto> w)) st)"
  using I nk
proof (rule indexed_set_other)
  show "((case kv_get st K of None \<Rightarrow> [f \<mapsto> JArr []] | Some x \<Rightarrow> x)(f \<mapsto> w)) ref
          = (case kv_get st K of None \<Rightarrow> None | Some old \<Rightarrow> old ref)
        \<or> ((\<forall>u. ((case kv_get st K of None \<Rightarrow> [f \<mapsto> JArr []] | Some x \<Rightarrow> x)(f \<mapsto> w)) ref \<noteq> Some (JStr u))
            \<and> (\<forall>old u. kv_get st K = Some old \<longrightarrow> old ref \<noteq> Some (JStr u)))"
    using fr by (auto split: option.splits)
qed

lemma indexed_pushId_other:
  assumes I: "indexed keyOf field isId ref st"
    and nk: "\<forall>u. keyOf u \<noteq> K"
    and fr: "f \<noteq> ref"
    and p: "pushId K f newId st = Some st'"
  shows "indexed keyOf field isId ref st'"
proof -
  from p obtain ids where
    "st' = kv_set K ((case kv_get st K of None \<Rightarrow> [f \<mapsto> JArr []] | Some x \<Rightarrow> x)(f \<mapsto> JArr (ids @ [newId]))) st"
    unfolding pushId_Some by blast
  then show ?thesis using indexed_relist_other [OF I nk fr] by simp
qed

text \<open>A new record and its id appended to the list of the one it refers to.\<close>

lemma indexed_append:
  assumes I: "indexed keyOf field isId ref st"
    and inj: "\<forall>u. keyOf u = keyOf u0 \<longrightarrow> u = u0"
    and fresh: "kv_get st newId = None"
    and isId: "isId newId"
    and ref: "obj ref = Some (JStr u0)"
    and nk: "\<forall>u. keyOf u \<noteq> newId"
    and fr: "field \<noteq> ref"
    and p: "pushId (keyOf u0) field newId (kv_set newId obj st) = Some st'"
  shows "indexed keyOf field isId ref st'"
  unfolding indexed_def
proof
  fix u
  let ?K = "keyOf u0"
  let ?st1 = "kv_set newId obj st"
  let ?S = "\<lambda>s u. {k. isId k \<and> (\<exists>v. kv_get s k = Some v \<and> v ref = Some (JStr u))}"
  from I obtain ids0 where ids0: "indexList st ?K field = Some ids0" "set ids0 = ?S st u0"
    unfolding indexed_def by blast
  from I obtain ids where ids: "indexList st (keyOf u) field = Some ids" "set ids = ?S st u"
    unfolding indexed_def by blast
  have ne: "?K \<noteq> newId" using nk by simp
  have i1: "indexList ?st1 ?K field = Some ids0"
    using ids0(1) ne by (simp add: indexList_set)
  let ?ix = "case kv_get ?st1 ?K of None \<Rightarrow> [field \<mapsto> JArr []] | Some x \<Rightarrow> x"
  have st': "st' = kv_set ?K (?ix(field \<mapsto> JArr (ids0 @ [newId]))) ?st1"
    using p i1 unfolding pushId_Some by auto
  have ixref: "(?ix(field \<mapsto> JArr (ids0 @ [newId]))) ref = (case kv_get st ?K of None \<Rightarrow> None | Some old \<Rightarrow> old ref)"
    using fr ne by (auto split: option.splits)
  have get: "kv_get st' k = (if k = ?K then Some (?ix(field \<mapsto> JArr (ids0 @ [newId])))
                             else if k = newId then Some obj else kv_get st k)" for k
    unfolding st' by simp
  have S: "?S st' u = (if u = u0 then insert newId (?S st u) else ?S st u)"
  proof (cases "u = u0")
    case True
    show ?thesis
      unfolding True using isId ref fresh ixref ne
      by (auto simp: get split: option.splits if_splits)
  next
    case False
    show ?thesis
      using False isId ref fresh ixref ne
      by (auto simp: get split: option.splits if_splits)
  qed
  show "\<exists>ids. indexList st' (keyOf u) field = Some ids \<and> set ids = ?S st' u"
  proof (cases "u = u0")
    case True
    have "indexList st' (keyOf u) field = Some (ids0 @ [newId])"
      unfolding True st' by (simp add: indexList_set keysOf_def)
    moreover have "set (ids0 @ [newId]) = ?S st' u"
      unfolding S using True ids0(2) by simp
    ultimately show ?thesis by blast
  next
    case False
    then have k: "keyOf u \<noteq> ?K" using inj by blast
    have "indexList st' (keyOf u) field = Some ids"
      unfolding st' using k nk ids(1) by (simp add: indexList_set)
    moreover have "set ids = ?S st' u"
      unfolding S using False ids(2) by simp
    ultimately show ?thesis by blast
  qed
qed

text \<open>A record deleted and its id filtered out of the list named by its reference.\<close>

lemma indexed_prune:
  assumes I: "indexed keyOf field isId ref st"
    and inj: "\<forall>u w. keyOf u = keyOf w \<longrightarrow> u = w"
    and got: "kv_get st target = Some obj"
    and nk: "\<forall>u. keyOf u \<noteq> target"
    and fr: "field \<noteq> ref"
    and ids0: "indexList st (keyOf (tmpl (obj ref))) field = Some ids0"
  shows "indexed keyOf field isId ref
           (kv_set (keyOf (tmpl (obj ref)))
              ((case kv_get (kv_del target st) (keyOf (tmpl (obj ref))) of
                  None \<Rightarrow> [field \<mapsto> JArr []] | Some x \<Rightarrow> x)
               (field \<mapsto> JArr (filter (\<lambda>i. i \<noteq> target) ids0)))
              (kv_del target st))"
  (is "indexed keyOf field isId ref ?st'")
  unfolding indexed_def
proof
  fix u
  let ?K = "keyOf (tmpl (obj ref))"
  let ?st1 = "kv_del target st"
  let ?S = "\<lambda>s u. {k. isId k \<and> (\<exists>v. kv_get s k = Some v \<and> v ref = Some (JStr u))}"
  let ?ix = "case kv_get ?st1 ?K of None \<Rightarrow> [field \<mapsto> JArr []] | Some x \<Rightarrow> x"
  let ?ix' = "?ix(field \<mapsto> JArr (filter (\<lambda>i. i \<noteq> target) ids0))"
  from I obtain ids where ids: "indexList st (keyOf u) field = Some ids" "set ids = ?S st u"
    unfolding indexed_def by blast
  from I have s0: "set ids0 = ?S st (tmpl (obj ref))"
    using ids0 unfolding indexed_def by (metis option.inject)
  have ne: "?K \<noteq> target" using nk by simp
  have ixref: "?ix' ref = (case kv_get st ?K of None \<Rightarrow> None | Some old \<Rightarrow> old ref)"
    using fr ne by (auto split: option.splits)
  have get: "kv_get ?st' k = (if k = ?K then Some ?ix' else if k = target then None else kv_get st k)" for k
    by simp
  have S: "?S ?st' u = ?S st u - {target}"
    using ixref ne by (auto simp: get split: option.splits if_splits)
  show "\<exists>ids. indexList ?st' (keyOf u) field = Some ids \<and> set ids = ?S ?st' u"
  proof (cases "keyOf u = ?K")
    case True
    then have u: "u = tmpl (obj ref)" using inj by blast
    have "indexList ?st' (keyOf u) field = Some (filter (\<lambda>i. i \<noteq> target) ids0)"
      using True by (simp add: indexList_set keysOf_def)
    moreover have "set (filter (\<lambda>i. i \<noteq> target) ids0) = ?S st u - {target}"
      using s0 unfolding u by auto
    then have "set (filter (\<lambda>i. i \<noteq> target) ids0) = ?S ?st' u"
      by (simp only: S)
    ultimately show ?thesis by blast
  next
    case False
    have nr: "obj ref \<noteq> Some (JStr u)"
      using False by (auto simp: tmpl_def toStr_def)
    have "indexList ?st' (keyOf u) field = Some ids"
      using False nk ids(1) by (simp add: indexList_set indexList_del)
    moreover have "target \<notin> ?S st u" using got nr by simp
    then have "set ids = ?S ?st' u" unfolding S using ids(2) by simp
    ultimately show ?thesis by blast
  qed
qed

subsection \<open>What the writing routes leave in the store\<close>

lemma indexed_create_other:
  assumes "indexed keyOf field isId ref st"
    and "\<not> isId newId" and "\<forall>u. keyOf u \<noteq> newId" and "\<forall>u. keyOf u \<noteq> K" and "f \<noteq> ref"
    and "pushId K f newId (kv_set newId obj st) = Some st'"
  shows "indexed keyOf field isId ref st'"
proof -
  have "indexed keyOf field isId ref (kv_set newId obj st)"
    using assms(1,3) by (rule indexed_set_other) (simp add: assms(2))
  then show ?thesis using assms(4,5,6) by (rule indexed_pushId_other)
qed

lemma ownersTextual_set:
  "ownersTextual st \<Longrightarrow> \<forall>ss. v ''ownerId'' \<noteq> Some (JArr ss) \<Longrightarrow> ownersTextual (kv_set K v st)"
  by (auto simp: ownersTextual_def split: if_splits)

lemma ownersTextual_del: "ownersTextual st \<Longrightarrow> ownersTextual (kv_del K st)"
  by (auto simp: ownersTextual_def split: if_splits)

lemma ownersTextual_relist:
  assumes "ownersTextual st" and "f \<noteq> ''ownerId''"
  shows "ownersTextual (kv_set K ((case kv_get st K of None \<Rightarrow> [f \<mapsto> JArr []] | Some x \<Rightarrow> x)(f \<mapsto> w)) st)"
  using assms(1)
proof (rule ownersTextual_set)
  show "\<forall>ss. ((case kv_get st K of None \<Rightarrow> [f \<mapsto> JArr []] | Some x \<Rightarrow> x)(f \<mapsto> w)) ''ownerId'' \<noteq> Some (JArr ss)"
    using assms by (auto simp: ownersTextual_def split: option.splits)
qed

lemma ownersTextual_pushId:
  assumes "ownersTextual st" and "f \<noteq> ''ownerId''" and "pushId K f newId st = Some st'"
  shows "ownersTextual st'"
proof -
  from assms(3) obtain ids where
    "st' = kv_set K ((case kv_get st K of None \<Rightarrow> [f \<mapsto> JArr []] | Some x \<Rightarrow> x)(f \<mapsto> JArr (ids @ [newId]))) st"
    unfolding pushId_Some by blast
  then show ?thesis using ownersTextual_relist [OF assms(1,2)] by simp
qed

lemma pushId_succeeds:
  "indexList st K f = Some ids \<Longrightarrow> K \<noteq> newId \<Longrightarrow>
   \<exists>st'. pushId K f newId (kv_set newId obj st) = Some st'"
  using pushId_None [of K f newId "kv_set newId obj st"]
  by (cases "pushId K f newId (kv_set newId obj st)") (auto simp: indexList_set)

lemma newPet_fields:
  "petData ''ownerId'' = None \<Longrightarrow> newPet L now i uid petData ''ownerId'' = Some (JStr uid)"
  by (simp add: newPet_def to_obj_def map_add_def)

lemma newAppointment_owner: "newAppointment L now i U appointmentData ''ownerId'' \<noteq> Some (JArr ss)"
  by (simp add: newAppointment_def to_obj_def map_add_def split: option.splits)

lemma newRecord_fields:
  "recordData ''petId'' = Some p \<Longrightarrow> newRecord L now i uid recordData ''petId'' = Some (JStr p)"
  "newRecord L now i uid recordData ''ownerId'' \<noteq> Some (JArr ss)"
  by (simp_all add: newRecord_def to_obj_def map_add_def split: option.splits)

lemma createPet_store:
  "fst (createPet L now user petData st) = st \<or>
   (\<exists>uid. user = Some uid \<and>
      fst (createPet L now user petData st) =
        (case pushId (''user:'' @ uid @ '':pets'') ''petIds'' (''pet:'' @ uid @ '':'' @ show_int now)
                (kv_set (''pet:'' @ uid @ '':'' @ show_int now)
                   (newPet L now (''pet:'' @ uid @ '':'' @ show_int now) uid petData) st) of
           None \<Rightarrow> kv_set (''pet:'' @ uid @ '':'' @ show_int now)
                     (newPet L now (''pet:'' @ uid @ '':'' @ show_int now) uid petData) st
         | Some st2 \<Rightarrow> st2))"
  by (auto simp: createPet_def Let_def split: option.splits)

lemma createHealthRecord_store:
  "fst (createHealthRecord L now user recordData st) = st \<or>
   (\<exists>uid. user = Some uid \<and>
      fst (createHealthRecord L now user recordData st) =
        (case pushId (tmpl (to_obj recordData ''petId'') @ '':records'') ''recordIds''
                (''record:'' @ tmpl (to_obj recordData ''petId'') @ '':'' @ show_int now)
                (kv_set (''record:'' @ tmpl (to_obj recordData ''petId'') @ '':'' @ show_int now)
                   (newRecord L now (''record:'' @ tmpl (to_obj recordData ''petId'') @ '':'' @ show_int now)
                      uid recordData) st) of
           None \<Rightarrow> kv_set (''record:'' @ tmpl (to_obj recordData ''petId'') @ '':'' @ show_int now)
                   (newRecord L now (''record:'' @ tmpl (to_obj recordData ''petId'') @ '':'' @ show_int now)
                      uid recordData) st
         | Some st2 \<Rightarrow> st2))"
  by (auto simp: createHealthRecord_def Let_def split: option.splits)

lemma createAppointment_store:
  "fst (createAppointment L now user appointmentData st) = st \<or>
   (\<exists>uid U. user = Some uid \<and> resolveOwner st uid appointmentData = Inr U \<and>
      fst (createAppointment L now user appointmentData st) =
        (case pushId (''user:'' @ toStr U @ '':appointments'') ''appointmentIds''
                (''appointment:'' @ show_int now)
                (kv_set (''appointment:'' @ show_int now)
                   (newAppointment L now (''appointment:'' @ show_int now) U appointmentData) st) of
           None \<Rightarrow> kv_set (''appointment:'' @ show_int now)
                   (newAppointment L now (''appointment:'' @ show_int now) U appointmentData) st
         | Some st2 \<Rightarrow> st2))"
  by (auto simp: createAppointment_def Let_def split: option.splits sum.splits)

lemma resolveOwner_textual:
  "ownersTextual st \<Longrightarrow> resolveOwner st uid appointmentData = Inr U \<Longrightarrow> \<exists>w. U = JStr w"
proof -
  assume t: "ownersTextual st" and r: "resolveOwner st uid appointmentData = Inr U"
  from r have "U = JStr uid \<or> (\<exists>k pet. kv_get st k = Some pet \<and> pet ''ownerId'' = Some U)"
    by (auto simp: resolveOwner_def Let_def split: if_splits option.splits)
  with t show ?thesis
    by (cases U) (auto simp: ownersTextual_def)
qed

lemma deletePet_store:
  assumes "indexList st (''user:'' @ tmpl (pet ''ownerId'') @ '':pets'') ''petIds'' = Some ids0"
    and "kv_get st petId = Some pet"
    and "''user:'' @ tmpl (pet ''ownerId'') @ '':pets'' \<noteq> petId"
  shows "fst (deletePet user petId st) = st \<or>
     fst (deletePet user petId st) =
       kv_set (''user:'' @ tmpl (pet ''ownerId'') @ '':pets'')
         ((case kv_get (kv_del petId st) (''user:'' @ tmpl (pet ''ownerId'') @ '':pets'') of
             None \<Rightarrow> [''petIds'' \<mapsto> JArr []] | Some x \<Rightarrow> x)
          (''petIds'' \<mapsto> JArr (filter (\<lambda>i. i \<noteq> petId) ids0)))
         (kv_del petId st)"
proof -
  let ?K = "''user:'' @ tmpl (pet ''ownerId'') @ '':pets''"
  let ?ownerPets = "case kv_get (kv_del petId st) ?K of None \<Rightarrow> [''petIds'' \<mapsto> JArr []] | Some x \<Rightarrow> x"
  have g: "kv_get (kv_del petId st) ?K = kv_get st ?K" using assms(3) by simp
  have "?ownerPets ''petIds'' = Some (JArr ids0)"
    using assms(1) unfolding g by (auto simp: indexList_def keysOf_def split: option.splits jval.splits)
  then have "(if truthy (?ownerPets ''petIds'') then ?ownerPets ''petIds'' else Some (JArr [])) = Some (JArr ids0)"
    by (simp add: truthy_def)
  then show ?thesis
    using assms(2,3) by (cases user) (auto simp: deletePet_def Let_def)
qed

subsection \<open>Each operation keeps the index lists exact\<close>

lemma consistent_lists:
  assumes "consistent st"
  shows "\<exists>ids. indexList st (''user:'' @ u @ '':pets'') ''petIds'' = Some ids"
    and "\<exists>ids. indexList st (''user:'' @ u @ '':appointments'') ''appointmentIds'' = Some ids"
    and "\<exists>ids. indexList st (p @ '':records'') ''recordIds'' = Some ids"
  using assms unfolding consistent_def indexed_def by blast+

lemma createPet_consistent:
  assumes C: "consistent st" and T: "ownersTextual st" and A: "admissible (CreatePet now user petData) st"
  shows "consistent (fst (createPet L now user petData st)) \<and>
         ownersTextual (fst (createPet L now user petData st))"
proof -
  consider "fst (createPet L now user petData st) = st"
    | uid where "user = Some uid"
        "fst (createPet L now user petData st) =
          (case pushId (''user:'' @ uid @ '':pets'') ''petIds'' (''pet:'' @ uid @ '':'' @ show_int now)
                  (kv_set (''pet:'' @ uid @ '':'' @ show_int now)
                     (newPet L now (''pet:'' @ uid @ '':'' @ show_int now) uid petData) st) of
             None \<Rightarrow> kv_set (''pet:'' @ uid @ '':'' @ show_int now)
                       (newPet L now (''pet:'' @ uid @ '':'' @ show_int now) uid petData) st
           | Some st2 \<Rightarrow> st2)"
    using createPet_store [of L now user petData st] by blast
  then show ?thesis
  proof cases
    case 1
    then show ?thesis using C T by simp
  next
    case (2 uid)
    let ?id = "''pet:'' @ uid @ '':'' @ show_int now"
    let ?pet = "newPet L now ?id uid petData"
    let ?K = "''user:'' @ uid @ '':pets''"
    have fresh: "kv_get st ?id = None" and nown: "petData ''ownerId'' = None"
      using A 2(1) by simp_all
    have ne: "?K \<noteq> ?id" by simp
    obtain ids where "indexList st ?K ''petIds'' = Some ids"
      using consistent_lists(1) [OF C] by blast
    then obtain st' where push: "pushId ?K ''petIds'' ?id (kv_set ?id ?pet st) = Some st'"
      using pushId_succeeds [OF _ ne] by blast
    have res: "fst (createPet L now user petData st) = st'"
      unfolding 2(2) push by simp
    have idr: "?id \<noteq> p @ '':records''" for p
      using id_ne_records [of "''pet:'' @ uid @ '':''" now p] by simp
    have pk: "petKey ?id"
      using id_not_suffix_records [of "''pet:'' @ uid @ '':''" now] by (simp add: petKey_def)
    have a: "indexed (\<lambda>u. ''user:'' @ u @ '':pets'') ''petIds'' petKey ''ownerId'' st'"
    proof (rule indexed_append [where ?u0.0 = uid and newId = ?id and obj = ?pet and st = st])
      show "indexed (\<lambda>u. ''user:'' @ u @ '':pets'') ''petIds'' petKey ''ownerId'' st"
        using C by (simp add: consistent_def)
    qed (use fresh pk push in \<open>simp_all add: newPet_fields [where petData = petData, OF nown]\<close>)
    have b: "indexed (\<lambda>u. ''user:'' @ u @ '':appointments'') ''appointmentIds''
               (prefix ''appointment:'') ''userId'' st'"
    proof (rule indexed_create_other [where K = ?K and newId = ?id and obj = ?pet and st = st and f = "''petIds''"])
      show "indexed (\<lambda>u. ''user:'' @ u @ '':appointments'') ''appointmentIds''
               (prefix ''appointment:'') ''userId'' st"
        using C by (simp add: consistent_def)
      show "\<forall>u. ''user:'' @ u @ '':appointments'' \<noteq> ?K"
        using index_keys_ne(1) [of uid] by metis
    qed (use push in simp_all)
    have c: "indexed (\<lambda>p. p @ '':records'') ''recordIds'' (prefix ''record:'') ''petId'' st'"
    proof (rule indexed_create_other [where K = ?K and newId = ?id and obj = ?pet and st = st and f = "''petIds''"])
      show "indexed (\<lambda>p. p @ '':records'') ''recordIds'' (prefix ''record:'') ''petId'' st"
        using C by (simp add: consistent_def)
      show "\<forall>p. p @ '':records'' \<noteq> ?K"
        using index_keys_ne(2) [of uid] by metis
      show "\<forall>p. p @ '':records'' \<noteq> ?id" using idr by metis
    qed (use push in simp_all)
    have "ownersTextual (kv_set ?id ?pet st)"
      using T by (rule ownersTextual_set) (simp add: newPet_fields [where petData = petData, OF nown])
    then have d: "ownersTextual st'"
      using _ push by (rule ownersTextual_pushId) simp
    show ?thesis unfolding res using a b c d by (simp add: consistent_def)
  qed
qed

lemma createHealthRecord_consistent:
  assumes C: "consistent st" and T: "ownersTextual st"
    and A: "admissible (CreateHealthRecord now user recordData) st"
  shows "consistent (fst (createHealthRecord L now user recordData st)) \<and>
         ownersTextual (fst (createHealthRecord L now user recordData st))"
proof -
  from A obtain p where p: "recordData ''petId'' = Some p" by auto
  have tp: "tmpl (to_obj recordData ''petId'') = p"
    using p by (simp add: to_obj_def tmpl_def toStr_def)
  let ?id = "''record:'' @ p @ '':'' @ show_int now"
  let ?K = "p @ '':records''"
  consider "fst (createHealthRecord L now user recordData st) = st"
    | uid where "user = Some uid"
        "fst (createHealthRecord L now user recordData st) =
          (case pushId ?K ''recordIds'' ?id (kv_set ?id (newRecord L now ?id uid recordData) st) of
             None \<Rightarrow> kv_set ?id (newRecord L now ?id uid recordData) st
           | Some st2 \<Rightarrow> st2)"
    using createHealthRecord_store [of L now user recordData st] unfolding tp by blast
  then show ?thesis
  proof cases
    case 1
    then show ?thesis using C T by simp
  next
    case (2 uid)
    let ?rec = "newRecord L now ?id uid recordData"
    have fresh: "kv_get st ?id = None" using A unfolding admissible.simps tp by simp
    have idr: "?id \<noteq> q @ '':records''" for q
      using id_ne_records [of "''record:'' @ p @ '':''" now q] by simp
    have ne: "?K \<noteq> ?id" using idr [of p] by simp
    obtain ids where "indexList st ?K ''recordIds'' = Some ids"
      using consistent_lists(3) [OF C] by blast
    then obtain st' where push: "pushId ?K ''recordIds'' ?id (kv_set ?id ?rec st) = Some st'"
      using pushId_succeeds [OF _ ne] by blast
    have res: "fst (createHealthRecord L now user recordData st) = st'"
      unfolding 2(2) push by simp
    have c: "indexed (\<lambda>p. p @ '':records'') ''recordIds'' (prefix ''record:'') ''petId'' st'"
    proof (rule indexed_append [where ?u0.0 = p and newId = ?id and obj = ?rec and st = st])
      show "indexed (\<lambda>p. p @ '':records'') ''recordIds'' (prefix ''record:'') ''petId'' st"
        using C by (simp add: consistent_def)
      show "\<forall>q. q @ '':records'' \<noteq> ?id" using idr by metis
    qed (use fresh push in \<open>simp_all add: newRecord_fields(1) [where recordData = recordData, OF p]\<close>)
    have a: "indexed (\<lambda>u. ''user:'' @ u @ '':pets'') ''petIds'' petKey ''ownerId'' st'"
    proof (rule indexed_create_other [where K = ?K and newId = ?id and obj = ?rec and st = st and f = "''recordIds''"])
      show "indexed (\<lambda>u. ''user:'' @ u @ '':pets'') ''petIds'' petKey ''ownerId'' st"
        using C by (simp add: consistent_def)
      show "\<forall>u. ''user:'' @ u @ '':pets'' \<noteq> ?K"
        using index_keys_ne(2) by blast
    qed (use push in \<open>simp_all add: petKey_def\<close>)
    have b: "indexed (\<lambda>u. ''user:'' @ u @ '':appointments'') ''appointmentIds''
               (prefix ''appointment:'') ''userId'' st'"
    proof (rule indexed_create_other [where K = ?K and newId = ?id and obj = ?rec and st = st and f = "''recordIds''"])
      show "indexed (\<lambda>u. ''user:'' @ u @ '':appointments'') ''appointmentIds''
               (prefix ''appointment:'') ''userId'' st"
        using C by (simp add: consistent_def)
      show "\<forall>u. ''user:'' @ u @ '':appointments'' \<noteq> ?K"
        using index_keys_ne(3) by blast
    qed (use push in simp_all)
    have "ownersTextual (kv_set ?id ?rec st)"
      using T by (rule ownersTextual_set) (simp add: newRecord_fields(2))
    then have d: "ownersTextual st'"
      using _ push by (rule ownersTextual_pushId) simp
    show ?thesis unfolding res using a b c d by (simp add: consistent_def)
  qed
qed

lemma createAppointment_consistent:
  assumes C: "consistent st" and T: "ownersTextual st"
    and A: "admissible (CreateAppointment now user appointmentData) st"
  shows "consistent (fst (createAppointment L now user appointmentData st)) \<and>
         ownersTextual (fst (createAppointment L now user appointmentData st))"
proof -
  let ?id = "''appointment:'' @ show_int now"
  consider "fst (createAppointment L now user appointmentData st) = st"
    | uid U where "user = Some uid" "resolveOwner st uid appointmentData = Inr U"
        "fst (createAppointment L now user appointmentData st) =
          (case pushId (''user:'' @ toStr U @ '':appointments'') ''appointmentIds'' ?id
                  (kv_set ?id (newAppointment L now ?id U appointmentData) st) of
             None \<Rightarrow> kv_set ?id (newAppointment L now ?id U appointmentData) st
           | Some st2 \<Rightarrow> st2)"
    using createAppointment_store [of L now user appointmentData st] by blast
  then show ?thesis
  proof cases
    case 1
    then show ?thesis using C T by simp
  next
    case (2 uid U)
    from resolveOwner_textual [OF T 2(2)] obtain w where U: "U = JStr w" by blast
    let ?apt = "newAppointment L now ?id (JStr w) appointmentData"
    let ?K = "''user:'' @ w @ '':appointments''"
    have fresh: "kv_get st ?id = None" and nou: "appointmentData ''userId'' = None"
      using A by simp_all
    have idr: "?id \<noteq> q @ '':records''" for q
      using id_ne_records [of "''appointment:''" now q] by simp
    have ne: "?K \<noteq> ?id" by simp
    obtain ids where "indexList st ?K ''appointmentIds'' = Some ids"
      using consistent_lists(2) [OF C] by blast
    then obtain st' where push: "pushId ?K ''appointmentIds'' ?id (kv_set ?id ?apt st) = Some st'"
      using pushId_succeeds [OF _ ne] by blast
    have res: "fst (createAppointment L now user appointmentData st) = st'"
      unfolding 2(3) U using push by (simp add: toStr_def)
    have b: "indexed (\<lambda>u. ''user:'' @ u @ '':appointments'') ''appointmentIds''
               (prefix ''appointment:'') ''userId'' st'"
    proof (rule indexed_append [where ?u0.0 = w and newId = ?id and obj = ?apt and st = st])
      show "indexed (\<lambda>u. ''user:'' @ u @ '':appointments'') ''appointmentIds''
               (prefix ''appointment:'') ''userId'' st"
        using C by (simp add: consistent_def)
    qed (use fresh push in \<open>simp_all add: newAppointment_userId [where appointmentData = appointmentData, OF nou]\<close>)
    have a: "indexed (\<lambda>u. ''user:'' @ u @ '':pets'') ''petIds'' petKey ''ownerId'' st'"
    proof (rule indexed_create_other [where K = ?K and newId = ?id and obj = ?apt and st = st and f = "''appointmentIds''"])
      show "indexed (\<lambda>u. ''user:'' @ u @ '':pets'') ''petIds'' petKey ''ownerId'' st"
        using C by (simp add: consistent_def)
      show "\<forall>u. ''user:'' @ u @ '':pets'' \<noteq> ?K"
        using index_keys_ne(1) by blast
    qed (use push in \<open>simp_all add: petKey_def\<close>)
    have c: "indexed (\<lambda>p. p @ '':records'') ''recordIds'' (prefix ''record:'') ''petId'' st'"
    proof (rule indexed_create_other [where K = ?K and newId = ?id and obj = ?apt and st = st and f = "''appointmentIds''"])
      show "indexed (\<lambda>p. p @ '':records'') ''recordIds'' (prefix ''record:'') ''petId'' st"
        using C by (simp add: consistent_def)
      show "\<forall>p. p @ '':records'' \<noteq> ?K"
        using index_keys_ne(3) [of w] by metis
      show "\<forall>p. p @ '':records'' \<noteq> ?id" using idr by metis
    qed (use push in simp_all)
    have "ownersTextual (kv_set ?id ?apt st)"
      using T by (rule ownersTextual_set) (simp add: newAppointment_owner)
    then have d: "ownersTextual st'"
      using _ push by (rule ownersTextual_pushId) simp
    show ?thesis unfolding res using a b c d by (simp add: consistent_def)
  qed
qed

lemma deletePet_consistent:
  assumes C: "consistent st" and T: "ownersTextual st" and A: "admissible (DeletePet user petId) st"
  shows "consistent (fst (deletePet user petId st)) \<and> ownersTextual (fst (deletePet user petId st))"
proof (cases "kv_get st petId")
  case None
  then have "fst (deletePet user petId st) = st"
    by (simp add: deletePet_def split: option.splits)
  then show ?thesis using C T by simp
next
  case (Some pet)
  let ?K = "''user:'' @ tmpl (pet ''ownerId'') @ '':pets''"
  let ?w = "JArr (filter (\<lambda>i. i \<noteq> petId) ids0)"
  from A have pk: "prefix ''pet:'' petId" "\<not> suffix '':records'' petId"
    by (simp_all add: petKey_def)
  from pk(1) obtain rest where rest: "petId = ''pet:'' @ rest" unfolding prefix_def by blast
  have ne: "''user:'' @ u @ '':pets'' \<noteq> petId" "''user:'' @ u @ '':appointments'' \<noteq> petId" for u
    unfolding rest by simp_all
  have nr: "q @ '':records'' \<noteq> petId" for q
    using pk(2) by (auto simp: suffix_def)
  obtain ids0 where ids0: "indexList st ?K ''petIds'' = Some ids0"
    using consistent_lists(1) [OF C] by blast
  let ?st' = "kv_set ?K
         ((case kv_get (kv_del petId st) ?K of None \<Rightarrow> [''petIds'' \<mapsto> JArr []] | Some x \<Rightarrow> x)
          (''petIds'' \<mapsto> JArr (filter (\<lambda>i. i \<noteq> petId) ids0)))
         (kv_del petId st)"
  have a: "indexed (\<lambda>u. ''user:'' @ u @ '':pets'') ''petIds'' petKey ''ownerId'' ?st'"
  proof (rule indexed_prune [where keyOf = "\<lambda>u. ''user:'' @ u @ '':pets''" and obj = pet and ref = "''ownerId''"])
    show "indexed (\<lambda>u. ''user:'' @ u @ '':pets'') ''petIds'' petKey ''ownerId'' st"
      using C by (simp add: consistent_def)
    show "\<forall>u. ''user:'' @ u @ '':pets'' \<noteq> petId" using ne(1) by blast
  qed (use Some ids0 in simp_all)
  have b: "indexed (\<lambda>u. ''user:'' @ u @ '':appointments'') ''appointmentIds''
             (prefix ''appointment:'') ''userId'' ?st'"
  proof (rule indexed_relist_other)
    show "indexed (\<lambda>u. ''user:'' @ u @ '':appointments'') ''appointmentIds''
             (prefix ''appointment:'') ''userId'' (kv_del petId st)"
    proof (rule indexed_del_other)
      show "indexed (\<lambda>u. ''user:'' @ u @ '':appointments'') ''appointmentIds''
             (prefix ''appointment:'') ''userId'' st"
        using C by (simp add: consistent_def)
      show "\<forall>u. ''user:'' @ u @ '':appointments'' \<noteq> petId" using ne(2) by blast
      show "\<not> prefix ''appointment:'' petId" unfolding rest by simp
    qed
    show "\<forall>u. ''user:'' @ u @ '':appointments'' \<noteq> ?K"
      using index_keys_ne(1) by metis
  qed simp
  have c: "indexed (\<lambda>p. p @ '':records'') ''recordIds'' (prefix ''record:'') ''petId'' ?st'"
  proof (rule indexed_relist_other)
    show "indexed (\<lambda>p. p @ '':records'') ''recordIds'' (prefix ''record:'') ''petId'' (kv_del petId st)"
    proof (rule indexed_del_other)
      show "indexed (\<lambda>p. p @ '':records'') ''recordIds'' (prefix ''record:'') ''petId'' st"
        using C by (simp add: consistent_def)
      show "\<forall>p. p @ '':records'' \<noteq> petId" using nr by blast
      show "\<not> prefix ''record:'' petId" unfolding rest by simp
    qed
    show "\<forall>p. p @ '':records'' \<noteq> ?K"
      using index_keys_ne(2) by metis
  qed simp
  have d: "ownersTextual ?st'"
    by (rule ownersTextual_relist [OF ownersTextual_del [OF T]]) simp
  have "fst (deletePet user petId st) = st \<or> fst (deletePet user petId st) = ?st'"
    using deletePet_store [OF ids0 Some ne(1)] .
  then show ?thesis using C T a b c d by (auto simp: consistent_def)
qed

text \<open>
  Claim C2, amended. If the index lists of a store are exact (each owner's pet list holds
  exactly the ids of the stored pets with that \<^verbatim>\<open>ownerId\<close>, each user's appointment
  list exactly the ids of the stored appointments with that \<^verbatim>\<open>userId\<close>, each pet's
  record list exactly the ids of the stored health records with that \<^verbatim>\<open>petId\<close>), they
  are exact after every sequence of creations of pets, appointments and health records
  and deletions of pets, run one after the other, in which the requests have the fields
  of their forms, every new id is not yet a key of the store, and pets are deleted by
  the ids of pets. Deleting a pet takes its id out of the owner's list; the records that
  refer to the pet stay where they are.
\<close>

theorem index_consistency:
  assumes "consistent st" and "ownersTextual st" and "admissibleRun L ops st"
  shows "consistent (run L ops st) \<and> ownersTextual (run L ops st)"
  using assms unfolding run_def
proof (induction ops arbitrary: st)
  case Nil
  then show ?case by simp
next
  case (Cons x xs)
  have "consistent (perform L x st) \<and> ownersTextual (perform L x st)"
    using Cons.prems
    by (cases x)
       (simp_all add: createPet_consistent deletePet_consistent createAppointment_consistent
          createHealthRecord_consistent)
  then show ?case using Cons.IH [of "perform L x st"] Cons.prems by simp
qed

subsection \<open>C2: a pet created, treated, booked and deleted\<close>

lemma show_clock [simp]:
  "show_int 1736900002000 = ''1736900002000''"
  "show_int 1736900003000 = ''1736900003000''"
  by (simp_all add: show_int_def show_nat.simps digit_char_def)

lemma rexLife_1:
  "perform utcLib (CreatePet 1736900001000 (Some ''u1'') rexForm) [] =
     [(''pet:u1:1736900001000'', newPet utcLib 1736900001000 ''pet:u1:1736900001000'' ''u1'' rexForm),
      (''user:u1:pets'', [''petIds'' \<mapsto> JArr [''pet:u1:1736900001000'']])]"
  by (simp add: createPet_def Let_def kv_get_def kv_mget_def keysOf_def pushId_def kv_set_def)


lemma rexLife_2:
  "perform utcLib (CreateHealthRecord 1736900002000 (Some ''u1'') rexCheckup)
     [(''pet:u1:1736900001000'', pet), (''user:u1:pets'', petIx)] =
     [(''pet:u1:1736900001000'', pet), (''user:u1:pets'', petIx),
      (''record:pet:u1:1736900001000:1736900002000'',
         newRecord utcLib 1736900002000 ''record:pet:u1:1736900001000:1736900002000'' ''u1'' rexCheckup),
      (''pet:u1:1736900001000:records'',
         [''recordIds'' \<mapsto> JArr [''record:pet:u1:1736900001000:1736900002000'']])]"
  by (simp add: createHealthRecord_def Let_def rexCheckup_def to_obj_def tmpl_def toStr_def
        kv_get_def pushId_def kv_set_def)

lemma rexLife_3:
  "perform utcLib (CreateAppointment 1736900003000 (Some ''u1'') rexVisit)
     [(''pet:u1:1736900001000'', pet), (''user:u1:pets'', petIx),
      (''record:pet:u1:1736900001000:1736900002000'', rec),
      (''pet:u1:1736900001000:records'', recIx)] =
     [(''pet:u1:1736900001000'', pet), (''user:u1:pets'', petIx),
      (''record:pet:u1:1736900001000:1736900002000'', rec),
      (''pet:u1:1736900001000:records'', recIx),
      (''appointment:1736900003000'',
         newAppointment utcLib 1736900003000 ''appointment:1736900003000'' (JStr ''u1'') rexVisit),
      (''user:u1:appointments'', [''appointmentIds'' \<mapsto> JArr [''appointment:1736900003000'']])]"
  by (simp add: createAppointment_def Let_def resolveOwner_def getByPrefix_def getTime_def
        rexVisit_def to_obj_def toStr_def utcLib_def utcDates_def
        kv_get_def pushId_def kv_set_def)

lemma rexLife_4:
  assumes "pet ''ownerId'' = Some (JStr ''u1'')"
  shows "perform utcLib (DeletePet (Some ''u1'') ''pet:u1:1736900001000'')
     [(''pet:u1:1736900001000'', pet),
      (''user:u1:pets'', [''petIds'' \<mapsto> JArr [''pet:u1:1736900001000'']]),
      (''record:pet:u1:1736900001000:1736900002000'', rec),
      (''pet:u1:1736900001000:records'', recIx),
      (''appointment:1736900003000'', apt),
      (''user:u1:appointments'', aptIx)] =
     [(''user:u1:pets'', [''petIds'' \<mapsto> JArr []]),
      (''record:pet:u1:1736900001000:1736900002000'', rec),
      (''pet:u1:1736900001000:records'', recIx),
      (''appointment:1736900003000'', apt),
      (''user:u1:appointments'', aptIx)]"
  using assms
  by (simp add: deletePet_def Let_def isStr_def tmpl_def toStr_def truthy_def
        kv_get_def kv_del_def kv_set_def)

lemma rexPet_owner:
  "newPet utcLib 1736900001000 ''pet:u1:1736900001000'' ''u1'' rexForm ''ownerId'' = Some (JStr ''u1'')"
  by (simp add: newPet_fields rexForm_def)

lemma rexLife_run:
  "run utcLib rexLife [] =
     [(''user:u1:pets'', [''petIds'' \<mapsto> JArr []]),
      (''record:pet:u1:1736900001000:1736900002000'',
         newRecord utcLib 1736900002000 ''record:pet:u1:1736900001000:1736900002000'' ''u1'' rexCheckup),
      (''pet:u1:1736900001000:records'',
         [''recordIds'' \<mapsto> JArr [''record:pet:u1:1736900001000:1736900002000'']]),
      (''appointment:1736900003000'',
         newAppointment utcLib 1736900003000 ''appointment:1736900003000'' (JStr ''u1'') rexVisit),
      (''user:u1:appointments'', [''appointmentIds'' \<mapsto> JArr [''appointment:1736900003000'']])]"
  unfolding run_def rexLife_def
  by (simp only: fold_simps comp_apply rexLife_1 rexLife_2 rexLife_3
        rexLife_4 [where pet = "newPet utcLib 1736900001000 ''pet:u1:1736900001000'' ''u1'' rexForm",
                   OF rexPet_owner])

text \<open>
  Claim C2 says that deleting a pet leaves no orphaned records.
  \<^verbatim>\<open>DELETE /pets/:petId\<close> deletes the pet and filters its id out of the owner's list,
  and nothing else (no route deletes a health record or an appointment): after a pet has
  been created, given a health record and an appointment, and deleted, the record and
  the appointment are still stored, with a \<^verbatim>\<open>petId\<close> that no longer resolves.
\<close>

theorem orphaned_records_counterexample:
  "kv_get (run utcLib rexLife []) ''pet:u1:1736900001000'' = None
   \<and> (\<exists>r. kv_get (run utcLib rexLife []) ''record:pet:u1:1736900001000:1736900002000'' = Some r
          \<and> r ''petId'' = Some (JStr ''pet:u1:1736900001000''))
   \<and> (\<exists>a. kv_get (run utcLib rexLife []) ''appointment:1736900003000'' = Some a
          \<and> a ''petId'' = Some (JStr ''pet:u1:1736900001000''))"
  unfolding rexLife_run
  by (simp add: kv_get_def newRecord_def newAppointment_def rexCheckup_def rexVisit_def to_obj_def)

lemma consistent_empty: "consistent [] \<and> ownersTextual []"
  by (simp add: consistent_def indexed_def indexList_def ownersTextual_def kv_get_def)

lemma rexLife_admissible: "admissibleRun utcLib rexLife []"
  unfolding rexLife_def admissibleRun.simps rexLife_1 rexLife_2 rexLife_3
  by (simp add: petKey_def suffix_to_prefix
        rexForm_def rexCheckup_def rexVisit_def to_obj_def tmpl_def toStr_def kv_get_def)

theorem index_consistency_witness:
  "consistent [] \<and> ownersTextual [] \<and> admissibleRun utcLib rexLife []
   \<and> consistent (run utcLib rexLife [])
   \<and> indexList (run utcLib rexLife []) ''user:u1:pets'' ''petIds'' = Some []
   \<and> indexList (run utcLib rexLife []) ''user:u1:appointments'' ''appointmentIds''
        = Some [''appointment:1736900003000'']
   \<and> indexList (run utcLib rexLife []) ''pet:u1:1736900001000:records'' ''recordIds''
        = Some [''record:pet:u1:1736900001000:1736900002000'']"
proof -
  have c: "consistent []" and t: "ownersTextual []" using consistent_empty by simp_all
  have "consistent (run utcLib rexLife [])"
    using index_consistency [OF c t rexLife_admissible] by simp
  moreover have
    "indexList (run utcLib rexLife []) ''user:u1:pets'' ''petIds'' = Some []"
    "indexList (run utcLib rexLife []) ''user:u1:appointments'' ''appointmentIds''
        = Some [''appointment:1736900003000'']"
    "indexList (run utcLib rexLife []) ''pet:u1:1736900001000:records'' ''recordIds''
        = Some [''record:pet:u1:1736900001000:1736900002000'']"
    unfolding rexLife_run by (simp_all add: indexList_def kv_get_def keysOf_def)
  ultimately show ?thesis using c t rexLife_admissible by simp
qed

end
